theory Spec2Isabelle
  imports Complex_Main "HOL-Library.Char_ord"
begin

section \<open>Text primitives of the Python runtime\<close>

text \<open>
  A Python \<open>str\<close> is modelled as a \<open>string\<close> whose characters are the code points
  0..255 (Latin-1); the character classes below are Python's own classes restricted to
  that range. Text with code points above 255 is outside the model.
\<close>

definition NL :: char where
  "NL = CHR 0x0A"

definition CR :: char where
  "CR = CHR 0x0D"

definition TAB :: char where
  "TAB = CHR 0x09"

text \<open>\<open>str.isspace\<close> on one character; also the class \<open>\s\<close> of \<open>re\<close> and the
  characters removed by \<open>str.strip()\<close>.\<close>

definition isspace :: "char \<Rightarrow> bool" where
  "isspace c = (let n = (of_char c :: nat) in
     (9 \<le> n \<and> n \<le> 13) \<or> (28 \<le> n \<and> n \<le> 32) \<or> n = 133 \<or> n = 160)"

text \<open>The line boundaries of \<open>str.splitlines\<close>.\<close>

definition is_linebreak :: "char \<Rightarrow> bool" where
  "is_linebreak c = (let n = (of_char c :: nat) in
     (10 \<le> n \<and> n \<le> 13) \<or> (28 \<le> n \<and> n \<le> 30) \<or> n = 133)"

definition is_upper_ascii :: "char \<Rightarrow> bool" where
  "is_upper_ascii c = (CHR ''A'' \<le> c \<and> c \<le> CHR ''Z'')"

definition is_digit_ascii :: "char \<Rightarrow> bool" where
  "is_digit_ascii c = (CHR ''0'' \<le> c \<and> c \<le> CHR ''9'')"

text \<open>\<open>str.isalpha\<close> on one character.\<close>

definition isalpha :: "char \<Rightarrow> bool" where
  "isalpha c = (let n = (of_char c :: nat) in
     (65 \<le> n \<and> n \<le> 90) \<or> (97 \<le> n \<and> n \<le> 122) \<or> n = 170 \<or> n = 181 \<or> n = 186 \<or>
     (192 \<le> n \<and> n \<le> 214) \<or> (216 \<le> n \<and> n \<le> 246) \<or> (248 \<le> n \<and> n \<le> 255))"

text \<open>The class \<open>\w\<close> of \<open>re\<close> on \<open>str\<close> patterns: alphanumeric or underscore.\<close>

definition is_word :: "char \<Rightarrow> bool" where
  "is_word c = (let n = (of_char c :: nat) in
     isalpha c \<or> (48 \<le> n \<and> n \<le> 57) \<or> n = 178 \<or> n = 179 \<or> n = 185 \<or>
     (188 \<le> n \<and> n \<le> 190) \<or> c = CHR ''_'')"

text \<open>\<open>str.lower\<close>.\<close>

definition lower_char :: "char \<Rightarrow> char" where
  "lower_char c = (let n = (of_char c :: nat) in
     if (65 \<le> n \<and> n \<le> 90) \<or> (192 \<le> n \<and> n \<le> 222 \<and> n \<noteq> 215) then char_of (n + 32) else c)"

definition lower :: "string \<Rightarrow> string" where
  "lower s = map lower_char s"

definition lstrip :: "string \<Rightarrow> string" where
  "lstrip s = dropWhile isspace s"

definition rstrip :: "string \<Rightarrow> string" where
  "rstrip s = rev (dropWhile isspace (rev s))"

definition strip :: "string \<Rightarrow> string" where
  "strip s = rstrip (lstrip s)"

text \<open>\<open>s.strip(chars)\<close>.\<close>

definition strip_chars :: "string \<Rightarrow> string \<Rightarrow> string" where
  "strip_chars cs s =
     rev (dropWhile (\<lambda>c. c \<in> set cs) (rev (dropWhile (\<lambda>c. c \<in> set cs) s)))"

definition startswith :: "string \<Rightarrow> string \<Rightarrow> bool" where
  "startswith s p = (take (length p) s = p)"

text \<open>\<open>sep.join(xs)\<close>.\<close>

fun join :: "string \<Rightarrow> string list \<Rightarrow> string" where
  "join sep [] = []"
| "join sep [x] = x"
| "join sep (x # y # ys) = x @ sep @ join sep (y # ys)"

text \<open>\<open>str.splitlines()\<close>: a line ends at a line boundary, \<open>\r\n\<close> is one boundary, and
  no empty line is produced after a final boundary. The first argument is the current
  line, reversed.\<close>

fun splitlines_from :: "string \<Rightarrow> string \<Rightarrow> string list" where
  "splitlines_from cur [] = (if cur = [] then [] else [rev cur])"
| "splitlines_from cur (c # cs) =
     (if c = CR then
        (case cs of
           [] \<Rightarrow> [rev cur]
         | d # ds \<Rightarrow> if d = NL then rev cur # splitlines_from [] ds
                     else rev cur # splitlines_from [] (d # ds))
      else if is_linebreak c then rev cur # splitlines_from [] cs
      else splitlines_from (c # cur) cs)"

definition splitlines :: "string \<Rightarrow> string list" where
  "splitlines s = splitlines_from [] s"

text \<open>\<open>s.split(c)\<close> for a one-character separator.\<close>

fun split_on :: "char \<Rightarrow> string \<Rightarrow> string list" where
  "split_on c [] = [[]]"
| "split_on c (x # xs) =
     (if x = c then [] # split_on c xs
      else (case split_on c xs of [] \<Rightarrow> [[x]] | y # ys \<Rightarrow> (x # y) # ys))"

text \<open>\<open>s.split(c, 1)\<close> on a string that contains \<open>c\<close>: the parts before and after the
  first occurrence.\<close>

definition split_first :: "char \<Rightarrow> string \<Rightarrow> string \<times> string" where
  "split_first c s = (takeWhile (\<lambda>x. x \<noteq> c) s, drop 1 (dropWhile (\<lambda>x. x \<noteq> c) s))"

section \<open>The regular expressions of the table recovery script\<close>

text \<open>Each pattern of the source is written out as the recogniser it denotes.\<close>

text \<open>\<open>\b\<close> at a position: exactly one of the characters before and after it is a word
  character; the ends of the string count as non-word.\<close>

definition at_boundary :: "bool \<Rightarrow> string \<Rightarrow> bool" where
  "at_boundary prev_word s = (prev_word \<noteq> (s \<noteq> [] \<and> is_word (hd s)))"

text \<open>One alternative \<open>kw\<close> of \<open>\b(..|kw|..)\b\<close> matched at the start of \<open>s\<close>; \<open>ci\<close> is the
  flag \<open>re.I\<close>.\<close>

definition keyword_at :: "bool \<Rightarrow> bool \<Rightarrow> string \<Rightarrow> string \<Rightarrow> bool" where
  "keyword_at ci prev_word kw s =
     (length kw \<le> length s \<and>
      (if ci then lower (take (length kw) s) = lower kw else take (length kw) s = kw) \<and>
      at_boundary prev_word s \<and>
      at_boundary (kw \<noteq> [] \<and> is_word (last (take (length kw) s))) (drop (length kw) s))"

text \<open>\<open>re.search(r"\b(k1|k2|...)\b", s)\<close>, scanning the start positions from the left.\<close>

fun keyword_search_from :: "bool \<Rightarrow> bool \<Rightarrow> string list \<Rightarrow> string \<Rightarrow> bool" where
  "keyword_search_from ci prev_word kws [] = list_ex (\<lambda>kw. keyword_at ci prev_word kw []) kws"
| "keyword_search_from ci prev_word kws (c # cs) =
     (list_ex (\<lambda>kw. keyword_at ci prev_word kw (c # cs)) kws \<or>
      keyword_search_from ci (is_word c) kws cs)"

definition keyword_search :: "bool \<Rightarrow> string list \<Rightarrow> string \<Rightarrow> bool" where
  "keyword_search ci kws s = keyword_search_from ci False kws s"

text \<open>\<open>re.fullmatch(r"[A-Z0-9 \-_/&]{2,120}", s)\<close>.\<close>

definition header_char :: "char \<Rightarrow> bool" where
  "header_char c = (is_upper_ascii c \<or> is_digit_ascii c \<or>
     c \<in> {CHR '' '', CHR ''-'', CHR ''_'', CHR ''/'', CHR ''&''})"

definition header_like :: "string \<Rightarrow> bool" where
  "header_like s = (2 \<le> length s \<and> length s \<le> 120 \<and> list_all header_char s)"

text \<open>\<open>re.search(r"^\s*\|?\s*:?-{2,}\s*(\|.+)?$", l)\<close>: optional blanks, an optional
  pipe, optional blanks, an optional colon, two or more dashes, optional blanks, and then
  either the end, or a pipe followed by at least one character other than a newline up to
  the end; \<open>$\<close> also matches before one final newline.\<close>

definition md_separator_line :: "string \<Rightarrow> bool" where
  "md_separator_line l =
     (let a = dropWhile isspace l;
          b = (case a of [] \<Rightarrow> a | x # r \<Rightarrow> if x = CHR ''|'' then r else a);
          c = dropWhile isspace b;
          d = (case c of [] \<Rightarrow> c | x # r \<Rightarrow> if x = CHR '':'' then r else c);
          dashes = takeWhile (\<lambda>x. x = CHR ''-'') d;
          e = dropWhile (\<lambda>x. x = CHR ''-'') d;
          f = dropWhile isspace e
      in 2 \<le> length dashes \<and>
         (case f of
            [] \<Rightarrow> True
          | x # u \<Rightarrow> x = CHR ''|'' \<and>
              (let v = (if u \<noteq> [] \<and> last u = NL then butlast u else u)
               in v \<noteq> [] \<and> NL \<notin> set v)))"

text \<open>The test of the header line of a pipe table:
  \<open>l.strip().startswith("|") and "|" in l.strip()[1:]\<close>.\<close>

definition md_header_line :: "string \<Rightarrow> bool" where
  "md_header_line l = (startswith (strip l) ''|'' \<and> CHR ''|'' \<in> set (drop 1 (strip l)))"

text \<open>\<open>":" in l and re.match(r"^\s*[\w \-()\/]+:\s*", l)\<close>. Neither a blank nor a key
  character is a colon, so the colon of the match is the first colon of the line; the key
  characters in front of it are either everything after the leading blanks or, when the
  part before the colon is all blanks, a final run of spaces.\<close>

definition kv_key_char :: "char \<Rightarrow> bool" where
  "kv_key_char c = (is_word c \<or> c \<in> {CHR '' '', CHR ''-'', CHR ''('', CHR '')'', CHR ''/''})"

definition kv_line :: "string \<Rightarrow> bool" where
  "kv_line l =
     (CHR '':'' \<in> set l \<and>
      (let p = takeWhile (\<lambda>x. x \<noteq> CHR '':'') l; q = dropWhile isspace p
       in if q = [] then p \<noteq> [] \<and> last p = CHR '' '' else list_all kv_key_char q))"

text \<open>\<open>re.search(r"^-{2,}", s)\<close>.\<close>

definition starts_with_dashes :: "string \<Rightarrow> bool" where
  "starts_with_dashes s = (take 2 s = ''--'')"

text \<open>\<open>[cell.strip() for cell in re.split(r"\s*\|\s*", r.strip("| \t")) if cell.strip() != ""]\<close>.
  A match of \<open>\s*\|\s*\<close> is one pipe with the blanks around it, so the stripped pieces are
  the stripped pieces between the pipes.\<close>

definition row_cells :: "string \<Rightarrow> string list" where
  "row_cells r =
     filter (\<lambda>cell. cell \<noteq> [])
       (map strip (split_on (CHR ''|'') (strip_chars [CHR ''|'', CHR '' '', TAB] r)))"

text \<open>\<open>re.split(r"\n\s*\n", text)\<close>: the leftmost match starts at a newline whose
  following run of blanks contains another newline, and (greedy) ends at the last newline
  of that run. The first argument is the current piece, reversed.\<close>

function para_split_from :: "string \<Rightarrow> string \<Rightarrow> string list" where
  "para_split_from cur [] = [rev cur]"
| "para_split_from cur (c # cs) =
     (if c = NL \<and> NL \<in> set (takeWhile isspace cs)
      then rev cur #
           para_split_from []
             (rev (takeWhile (\<lambda>x. x \<noteq> NL) (rev (takeWhile isspace cs))) @ dropWhile isspace cs)
      else para_split_from (c # cur) cs)"
  by pat_completeness auto
termination
proof (relation "measure (\<lambda>(cur, s). length s)")
  show "wf (measure (\<lambda>(cur, s). length s))" by simp
next
  fix cur :: string and c :: char and cs :: string
  have "length (takeWhile (\<lambda>x. x \<noteq> NL) (rev (takeWhile isspace cs))) \<le> length (takeWhile isspace cs)"
    by (metis length_rev length_takeWhile_le)
  moreover have "length (takeWhile isspace cs) + length (dropWhile isspace cs) = length cs"
    by (metis length_append takeWhile_dropWhile_id)
  ultimately show "(([], rev (takeWhile (\<lambda>x. x \<noteq> NL) (rev (takeWhile isspace cs))) @ dropWhile isspace cs),
      (cur, c # cs)) \<in> measure (\<lambda>(cur, s). length s)"
    by simp
next
  fix cur :: string and c :: char and cs :: string
  show "((c # cur, cs), (cur, c # cs)) \<in> measure (\<lambda>(cur, s). length s)" by simp
qed

definition para_split :: "string \<Rightarrow> string list" where
  "para_split s = para_split_from [] s"

section \<open>Tables and the pandas boundary\<close>

datatype exn = IndexError | KeyError | ValueError | TypeError | FileNotFoundError
  | LibraryError string

text \<open>A \<open>pandas.DataFrame\<close>: the column labels and the rows; a cell is a string, or
  \<open>None\<close> for a missing value (NaN).\<close>

record dataframe =
  columns :: "string list"
  rows :: "string option list list"


text \<open>The three calls of \<open>pandas.read_csv\<close> in \<open>parse_table_from_section\<close> are calls
  into a library; each is a parameter that either raises or returns a frame:
  \<open>read_csv_pipe\<close> is \<open>read_csv(.., sep="|", engine="python", skipinitialspace=True)\<close>,
  \<open>read_csv_plain\<close> is \<open>read_csv(.., engine="python")\<close> and \<open>read_csv_relaxed\<close> is
  \<open>read_csv(.., sep=",", engine="python", quotechar='"', skipinitialspace=True)\<close>.\<close>

record pandas =
  read_csv_pipe :: "string \<Rightarrow> exn + dataframe"
  read_csv_plain :: "string \<Rightarrow> exn + dataframe"
  read_csv_relaxed :: "string \<Rightarrow> exn + dataframe"

text \<open>\<open>pandas.DataFrame(data, columns=cols)\<close> on a list of rows of strings: without
  rows the frame has the labels and no row; otherwise short rows are padded with missing
  values up to the widest row, and the constructor raises \<open>ValueError\<close> when the number of
  labels is not the width of the data.\<close>

definition DataFrame_rows :: "string list list \<Rightarrow> string list \<Rightarrow> exn + dataframe" where
  "DataFrame_rows data cols =
     (if data = [] then Inr \<lparr>columns = cols, rows = []\<rparr>
      else
        (let w = fold max (map length data) 0
         in if length cols \<noteq> w then Inl ValueError
            else Inr \<lparr>columns = cols,
                      rows = map (\<lambda>r. map Some r @ replicate (w - length r) None) data\<rparr>))"

text \<open>\<open>pandas.DataFrame({label: values})\<close>: one column.\<close>

definition DataFrame_column :: "string \<Rightarrow> string list \<Rightarrow> dataframe" where
  "DataFrame_column label vals = \<lparr>columns = [label], rows = map (\<lambda>v. [Some v]) vals\<rparr>"

text \<open>The three statements after the pipe read: keep a column unless its label starts
  with \<open>Unnamed\<close> and it has no value at all, strip the labels, and drop the rows that
  have no value at all. (\<open>read_csv\<close> returns distinct labels, so selecting by label is
  selecting by position.)\<close>

definition keep_column :: "dataframe \<Rightarrow> nat \<Rightarrow> bool" where
  "keep_column df j =
     (\<not> startswith (columns df ! j) ''Unnamed'' \<or>
      list_ex (\<lambda>r. j < length r \<and> r ! j \<noteq> None) (rows df))"

definition clean_pipe_frame :: "dataframe \<Rightarrow> dataframe" where
  "clean_pipe_frame df =
     (let keep = filter (keep_column df) [0 ..< length (columns df)]
      in \<lparr>columns = map (\<lambda>j. strip (columns df ! j)) keep,
          rows = filter (list_ex (\<lambda>c. c \<noteq> None))
                   (map (\<lambda>r. map (\<lambda>j. if j < length r then r ! j else None) keep) (rows df))\<rparr>)"

section \<open>Table recovery: \<open>extract_fullcontent_to_excel.py\<close>\<close>

datatype parse_method = empty | markdown_pipe | markdown_pipe_manual | csv_block | csv_block_relaxed
  | key_value | paragraphs | raw_single

fun extract_markdown_pipe_table :: "string list \<Rightarrow> string option" where
  "extract_markdown_pipe_table [] = None"
| "extract_markdown_pipe_table [l] = None"
| "extract_markdown_pipe_table (l # s # rest) =
     (if md_header_line l \<and> md_separator_line s
      then Some (join [NL] (l # s # takeWhile (\<lambda>x. startswith (strip x) ''|'') rest))
      else extract_markdown_pipe_table (s # rest))"

text \<open>The loop of \<open>extract_csv_like_block\<close> over the state \<open>(block, consec, blocks)\<close>.\<close>

fun csv_like_loop ::
  "string list \<Rightarrow> string list \<times> nat \<times> string list list \<Rightarrow> string list \<times> nat \<times> string list list" where
  "csv_like_loop [] st = st"
| "csv_like_loop (line # lns) (block, consec, blocks) =
     (if 1 \<le> count_list line (CHR '','')
      then csv_like_loop lns (block @ [line], consec + 1, blocks)
      else csv_like_loop lns ([], 0, if 2 \<le> consec then blocks @ [block] else blocks))"

text \<open>\<open>max(blocks, key=len)\<close>: the first block of maximal length.\<close>

fun max_by_len :: "'a list list \<Rightarrow> 'a list" where
  "max_by_len [] = []"
| "max_by_len (b # bs) = fold (\<lambda>x best. if length best < length x then x else best) bs b"

definition extract_csv_like_block :: "string list \<Rightarrow> string option" where
  "extract_csv_like_block lines =
     (case csv_like_loop lines ([], 0, []) of
        (block, consec, blocks) \<Rightarrow>
          (let blocks' = (if 2 \<le> consec then blocks @ [block] else blocks)
           in if blocks' \<noteq> [] then Some (join [NL] (max_by_len blocks')) else None))"

definition extract_key_value_block :: "string list \<Rightarrow> string list option" where
  "extract_key_value_block lines =
     (let kv_lines = filter kv_line lines
      in if 2 \<le> length kv_lines then Some kv_lines else None)"

text \<open>The \<open>except\<close> branch of the pipe strategy. It runs outside any \<open>try\<close>, so what it
  raises leaves \<open>parse_table_from_section\<close>: \<open>rows[1][0]\<close> and \<open>data_rows[0]\<close> raise
  \<open>IndexError\<close> on an empty list, and the constructor may raise \<open>ValueError\<close>. The
  result \<open>None\<close> is the case \<open>len(rows) < 2\<close>, where control falls to the next strategy.\<close>

definition markdown_manual :: "string \<Rightarrow> exn + (dataframe \<times> parse_method) option" where
  "markdown_manual md =
     (let rows = map row_cells (splitlines md)
      in if 2 \<le> length rows then
           (let header = rows ! 0
            in if rows ! 1 = [] then Inl IndexError
               else
                 (let data_rows =
                        (if starts_with_dashes (rows ! 1 ! 0) \<or>
                            starts_with_dashes (join ''|'' (rows ! 1))
                         then drop 2 rows else drop 1 rows)
                  in if data_rows = [] then Inl IndexError
                     else
                       (case DataFrame_rows data_rows (take (length (data_rows ! 0)) header) of
                          Inl e \<Rightarrow> Inl e
                        | Inr df \<Rightarrow> Inr (Some (df, markdown_pipe_manual)))))
         else Inr None)"

text \<open>Strategy 1; \<open>if md:\<close> is false for \<open>None\<close> and for the empty string.\<close>

definition strategy_markdown :: "pandas \<Rightarrow> string list \<Rightarrow> exn + (dataframe \<times> parse_method) option" where
  "strategy_markdown pd section_lines =
     (case extract_markdown_pipe_table section_lines of
        None \<Rightarrow> Inr None
      | Some md \<Rightarrow>
          if md = [] then Inr None
          else (case read_csv_pipe pd md of
                  Inr df \<Rightarrow> Inr (Some (clean_pipe_frame df, markdown_pipe))
                | Inl e \<Rightarrow> markdown_manual md))"

text \<open>Strategy 2: both reads are inside a \<open>try\<close>; when both raise, control falls through.\<close>

definition strategy_csv :: "pandas \<Rightarrow> string list \<Rightarrow> (dataframe \<times> parse_method) option" where
  "strategy_csv pd section_lines =
     (case extract_csv_like_block section_lines of
        None \<Rightarrow> None
      | Some blk \<Rightarrow>
          if blk = [] then None
          else (case read_csv_plain pd blk of
                  Inr df \<Rightarrow> Some (df, csv_block)
                | Inl e \<Rightarrow>
                    (case read_csv_relaxed pd blk of
                       Inr df \<Rightarrow> Some (df, csv_block_relaxed)
                     | Inl e' \<Rightarrow> None)))"

text \<open>Strategy 3: \<open>parts = ln.split(":", 1)\<close>, key and value stripped.\<close>

definition kv_row :: "string \<Rightarrow> string list" where
  "kv_row line = (case split_first (CHR '':'') line of (k, v) \<Rightarrow> [strip k, strip v])"

definition strategy_key_value :: "string list \<Rightarrow> exn + (dataframe \<times> parse_method) option" where
  "strategy_key_value section_lines =
     (case extract_key_value_block section_lines of
        None \<Rightarrow> Inr None
      | Some kv \<Rightarrow>
          if kv = [] then Inr None
          else (case DataFrame_rows (map kv_row kv) [''Field'', ''Value''] of
                  Inl e \<Rightarrow> Inl e
                | Inr df \<Rightarrow> Inr (Some (df, key_value))))"

text \<open>The text of strategies 4 and 5: \<open>"\n".join(section_lines).strip()\<close>.\<close>

definition section_text :: "string list \<Rightarrow> string" where
  "section_text section_lines = strip (join [NL] section_lines)"

definition paragraphs_of :: "string \<Rightarrow> string list" where
  "paragraphs_of text = filter (\<lambda>p. p \<noteq> []) (map strip (para_split text))"

definition strategy_text :: "string list \<Rightarrow> dataframe \<times> parse_method" where
  "strategy_text section_lines =
     (let text = section_text section_lines; paras = paragraphs_of text
      in if 1 < length paras then (DataFrame_column ''Paragraph'' paras, paragraphs)
         else (DataFrame_column ''FullContent'' [text], raw_single))"

text \<open>The result is the pair \<open>(df, method)\<close> of the source, \<open>df\<close> being \<open>None\<close> only for
  the empty section; \<open>Inl\<close> is an exception that leaves the function.\<close>

definition parse_table_from_section ::
  "pandas \<Rightarrow> string list \<Rightarrow> exn + (dataframe option \<times> parse_method)" where
  "parse_table_from_section pd section_lines =
     (if section_lines = [] then Inr (None, empty)
      else
        (case strategy_markdown pd section_lines of
           Inl e \<Rightarrow> Inl e
         | Inr (Some (df, m)) \<Rightarrow> Inr (Some df, m)
         | Inr None \<Rightarrow>
             (case strategy_csv pd section_lines of
                Some (df, m) \<Rightarrow> Inr (Some df, m)
              | None \<Rightarrow>
                  (case strategy_key_value section_lines of
                     Inl e \<Rightarrow> Inl e
                   | Inr (Some (df, m)) \<Rightarrow> Inr (Some df, m)
                   | Inr None \<Rightarrow>
                       (case strategy_text section_lines of
                          (df, m) \<Rightarrow> Inr (Some df, m))))))"

section \<open>Section locator: \<open>extract_fullcontent_to_excel.py\<close>\<close>

definition FULL_CONTENT_KEYS :: "string list" where
  "FULL_CONTENT_KEYS =
     [''COMPLETE EXTRACTED CONTENT'', ''FULL CONTENT'', ''FULL_CONTENT'', ''FULL_CONTENTS'',
      ''COMPLETE EXTRACTED CONTENTS'', ''COMPLETE CONTENT'', ''FULL_CONTENT_SECTION'',
      ''full_content'']"

text \<open>\<open>enumerate(lines)\<close>.\<close>

definition enumerate :: "'a list \<Rightarrow> (nat \<times> 'a) list" where
  "enumerate xs = zip [0 ..< length xs] xs"

text \<open>The test of the first loop of \<open>find_full_content_section\<close>:
  \<open>ln.strip().lower() in [k.lower() for k in FULL_CONTENT_KEYS]\<close>.\<close>

definition exact_header :: "string \<Rightarrow> bool" where
  "exact_header line = (lower (strip line) \<in> set (map lower FULL_CONTENT_KEYS))"

text \<open>The second test of \<open>detect_section_headers\<close>, on the stripped line.\<close>

definition heuristic_header :: "string \<Rightarrow> bool" where
  "heuristic_header s =
     (header_like s \<and> list_ex isalpha s \<and>
      keyword_search False [''CONTENT'', ''COMPLETE'', ''PAGE'', ''EXTRACTED'', ''FULL''] s)"

definition detect_section_headers :: "string list \<Rightarrow> (nat \<times> string) list" where
  "detect_section_headers lines =
     concat (map (\<lambda>(i, line).
        (let s = strip line
         in if s = [] then []
            else map (\<lambda>key. (i, key)) (filter (\<lambda>key. lower s = lower key) FULL_CONTENT_KEYS) @
                 (if heuristic_header s then [(i, s)] else [])))
       (enumerate lines))"

text \<open>The test that ends a section in \<open>extract_section\<close>.\<close>

definition section_end_line :: "string \<Rightarrow> bool" where
  "section_end_line line =
     (let s = strip line
      in s \<noteq> [] \<and> header_like s \<and>
         keyword_search False
           [''METADATA'', ''SUMMARY'', ''WELL'', ''STANDARDS'', ''SAMPLES'', ''PAGE CONTENT'',
            ''COMPLETE'', ''FULL'', ''SETTINGS''] s)"

text \<open>The loop \<open>for j in range(header_idx + 1, n)\<close> with its \<open>break\<close>: the lines from
  index \<open>j\<close> on are scanned, and the result is the index of the first line that ends the
  section, or \<open>n\<close>.\<close>

fun next_section_idx :: "string list \<Rightarrow> nat \<Rightarrow> nat" where
  "next_section_idx [] j = j"
| "next_section_idx (line # rest) j =
     (if section_end_line line then j else next_section_idx rest (Suc j))"

text \<open>The slice \<open>xs[a:b]\<close> for indices within range.\<close>

definition slice :: "'a list \<Rightarrow> nat \<Rightarrow> nat \<Rightarrow> 'a list" where
  "slice xs a b = take (b - a) (drop a xs)"

definition blank_line :: "string \<Rightarrow> bool" where
  "blank_line line = (strip line = [])"

definition extract_section :: "string list \<Rightarrow> nat \<Rightarrow> string list" where
  "extract_section lines header_idx =
     (let next_idx = next_section_idx (drop (header_idx + 1) lines) (header_idx + 1);
          section_lines = slice lines (header_idx + 1) next_idx
      in rev (dropWhile blank_line (rev (dropWhile blank_line section_lines))))"

text \<open>The result \<open>None\<close> is the triple \<open>(None, None, None)\<close> of the source.\<close>

definition find_full_content_section :: "string \<Rightarrow> (string list \<times> nat \<times> string) option" where
  "find_full_content_section raw_text =
     (let lines = splitlines raw_text
      in case find (\<lambda>(i, line). exact_header line) (enumerate lines) of
           Some (i, line) \<Rightarrow> Some (extract_section lines i, i, line)
         | None \<Rightarrow>
             (let detected = detect_section_headers lines
              in if detected \<noteq> [] then
                   (case find (\<lambda>(idx, txt).
                             keyword_search True [''COMPLETE'', ''EXTRACTED'', ''FULL''] txt \<and>
                             keyword_search True [''CONTENT'', ''CONTENTs'', ''PAGE''] txt) detected of
                      Some (idx, txt) \<Rightarrow> Some (extract_section lines idx, idx, txt)
                    | None \<Rightarrow>
                        (case hd detected of (idx, txt) \<Rightarrow> Some (extract_section lines idx, idx, txt)))
                 else None))"

section \<open>The three command-line scripts\<close>












section \<open>The PDF vision extractor: \<open>complete_pdf_extractor.py\<close>\<close>

text \<open>What \<open>json.loads\<close> returns: \<open>None\<close>, a \<open>bool\<close>, a finite number, a \<open>str\<close>, a
  \<open>list\<close> or a \<open>dict\<close>. A \<open>dict\<close> is the list of its items in insertion order, with
  distinct keys.\<close>

datatype json = JNull | JBool bool | JNum rat | JStr string | JArr "json list"
  | JObj "(string \<times> json) list"

text \<open>\<open>k in v\<close> for a string \<open>k\<close>: a key of a dict, an element of a list, a substring
  of a string; any other value is not a container.\<close>

definition is_substring :: "string \<Rightarrow> string \<Rightarrow> bool" where
  "is_substring k s = list_ex (\<lambda>i. take (length k) (drop i s) = k) [0 ..< Suc (length s)]"

definition py_contains :: "json \<Rightarrow> string \<Rightarrow> exn + bool" where
  "py_contains v k =
     (case v of
        JObj kvs \<Rightarrow> Inr (k \<in> set (map fst kvs))
      | JArr xs \<Rightarrow> Inr (JStr k \<in> set xs)
      | JStr s \<Rightarrow> Inr (is_substring k s)
      | _ \<Rightarrow> Inl TypeError)"

text \<open>\<open>v[k]\<close> for a string \<open>k\<close>.\<close>

definition py_getitem :: "json \<Rightarrow> string \<Rightarrow> exn + json" where
  "py_getitem v k =
     (case v of
        JObj kvs \<Rightarrow> (case map_of kvs k of Some x \<Rightarrow> Inr x | None \<Rightarrow> Inl KeyError)
      | _ \<Rightarrow> Inl TypeError)"

text \<open>The elements that iterating a value yields: those of a list, the characters of a
  string, the keys of a dict.\<close>

definition py_iter :: "json \<Rightarrow> exn + json list" where
  "py_iter v =
     (case v of
        JArr xs \<Rightarrow> Inr xs
      | JStr s \<Rightarrow> Inr (map (\<lambda>c. JStr [c]) s)
      | JObj kvs \<Rightarrow> Inr (map (\<lambda>kv. JStr (fst kv)) kvs)
      | _ \<Rightarrow> Inl TypeError)"

record page =
  page_number :: nat
  text_content :: string
  structured_data :: json

text \<open>The value that a page contributes under the two probed names: the \<open>if\<close>/\<open>elif\<close>
  of the four \<open>extract_*\<close> methods, with the membership test and the subscript of each
  branch.\<close>

definition probe :: "string \<Rightarrow> string \<Rightarrow> page \<Rightarrow> exn + json option" where
  "probe k1 k2 pg =
     (case py_contains (structured_data pg) k1 of
        Inl e \<Rightarrow> Inl e
      | Inr True \<Rightarrow> (case py_getitem (structured_data pg) k1 of Inl e \<Rightarrow> Inl e | Inr x \<Rightarrow> Inr (Some x))
      | Inr False \<Rightarrow>
          (case py_contains (structured_data pg) k2 of
             Inl e \<Rightarrow> Inl e
           | Inr True \<Rightarrow> (case py_getitem (structured_data pg) k2 of Inl e \<Rightarrow> Inl e | Inr x \<Rightarrow> Inr (Some x))
           | Inr False \<Rightarrow> Inr None))"

text \<open>The loop shared by \<open>extract_well_plate_data\<close>, \<open>extract_standards_table\<close> and
  \<open>extract_samples_data\<close>: \<open>acc.extend(value)\<close> for each page in turn.\<close>

fun extend_pages :: "string \<Rightarrow> string \<Rightarrow> page list \<Rightarrow> json list \<Rightarrow> exn + json list" where
  "extend_pages k1 k2 [] acc = Inr acc"
| "extend_pages k1 k2 (pg # pgs) acc =
     (case probe k1 k2 pg of
        Inl e \<Rightarrow> Inl e
      | Inr None \<Rightarrow> extend_pages k1 k2 pgs acc
      | Inr (Some v) \<Rightarrow>
          (case py_iter v of
             Inl e \<Rightarrow> Inl e
           | Inr xs \<Rightarrow> extend_pages k1 k2 pgs (acc @ xs)))"

definition extract_well_plate_data :: "page list \<Rightarrow> exn + json list" where
  "extract_well_plate_data pgs = extend_pages ''well_plate_data'' ''wells'' pgs []"

definition extract_standards_table :: "page list \<Rightarrow> exn + json list" where
  "extract_standards_table pgs = extend_pages ''standards_table'' ''standards'' pgs []"

definition extract_samples_data :: "page list \<Rightarrow> exn + json list" where
  "extract_samples_data pgs = extend_pages ''samples'' ''sample_data'' pgs []"

text \<open>The \<open>settings\<close> dict: its items in insertion order. Keys are compared as Python
  compares them: strings with strings, \<open>None\<close> with \<open>None\<close>, and numbers by value, a
  \<open>bool\<close> being the number 0 or 1.\<close>

type_synonym pydict = "(json \<times> json) list"

definition key_number :: "json \<Rightarrow> rat option" where
  "key_number k = (case k of JNum q \<Rightarrow> Some q | JBool b \<Rightarrow> Some (if b then 1 else 0) | _ \<Rightarrow> None)"

definition key_eq :: "json \<Rightarrow> json \<Rightarrow> bool" where
  "key_eq a b =
     (case key_number a of
        Some q \<Rightarrow> key_number b = Some q
      | None \<Rightarrow> key_number b = None \<and> a = b)"

definition hashable :: "json \<Rightarrow> bool" where
  "hashable k = (case k of JArr xs \<Rightarrow> False | JObj kvs \<Rightarrow> False | _ \<Rightarrow> True)"

text \<open>\<open>d[k] = v\<close>: an existing key keeps its place and takes the new value.\<close>

definition dict_setitem :: "pydict \<Rightarrow> json \<Rightarrow> json \<Rightarrow> pydict" where
  "dict_setitem d k v =
     (if list_ex (\<lambda>kv. key_eq (fst kv) k) d
      then map (\<lambda>kv. if key_eq (fst kv) k then (fst kv, v) else kv) d
      else d @ [(k, v)])"

text \<open>\<open>d.get(k)\<close>.\<close>

definition dict_get :: "pydict \<Rightarrow> json \<Rightarrow> json option" where
  "dict_get d k = map_option snd (find (\<lambda>kv. key_eq (fst kv) k) d)"

text \<open>\<open>d.update(v)\<close> for an argument that is not a dict: each element is read as a
  sequence of exactly two values, key and value.\<close>

fun update_from_pairs :: "pydict \<Rightarrow> json list \<Rightarrow> exn + pydict" where
  "update_from_pairs d [] = Inr d"
| "update_from_pairs d (x # xs) =
     (case py_iter x of
        Inl e \<Rightarrow> Inl TypeError
      | Inr kv \<Rightarrow>
          if length kv \<noteq> 2 then Inl ValueError
          else if \<not> hashable (kv ! 0) then Inl TypeError
          else update_from_pairs (dict_setitem d (kv ! 0) (kv ! 1)) xs)"

definition dict_update :: "pydict \<Rightarrow> json \<Rightarrow> exn + pydict" where
  "dict_update d v =
     (case v of
        JObj kvs \<Rightarrow> Inr (fold (\<lambda>kv acc. dict_setitem acc (JStr (fst kv)) (snd kv)) kvs d)
      | _ \<Rightarrow> (case py_iter v of Inl e \<Rightarrow> Inl e | Inr xs \<Rightarrow> update_from_pairs d xs))"

text \<open>\<open>extract_settings\<close>: the loop updates \<open>results['settings']\<close> in place; the first
  argument is that dict on entry.\<close>

fun extract_settings :: "pydict \<Rightarrow> page list \<Rightarrow> exn + pydict" where
  "extract_settings d [] = Inr d"
| "extract_settings d (pg # pgs) =
     (case probe ''settings'' ''instrument_settings'' pg of
        Inl e \<Rightarrow> Inl e
      | Inr None \<Rightarrow> extract_settings d pgs
      | Inr (Some v) \<Rightarrow>
          (case dict_update d v of
             Inl e \<Rightarrow> Inl e
           | Inr d' \<Rightarrow> extract_settings d' pgs))"

text \<open>The remote model and the libraries around it: \<open>messages_create img page_num\<close> is
  the vision call of \<open>analyze_page_detailed\<close> and returns the texts of the content blocks
  of the response; \<open>summary_create\<close> is the call of \<open>generate_summary\<close>; \<open>str_exn\<close> is
  \<open>str(e)\<close>; \<open>render_page\<close> is the rendering of a page to a base64 image; \<open>open_pdf\<close> is
  \<open>fitz.open\<close> and returns the number of pages; \<open>extract_metadata\<close> is the method of that
  name, which catches its own exceptions; \<open>save_outputs\<close> is the writing of the three output
  files by \<open>save_all_formats\<close>, which may raise.\<close>

record remote =
  messages_create :: "string \<Rightarrow> nat \<Rightarrow> exn + string list"
  summary_create :: "string \<Rightarrow> exn + string list"
  json_loads :: "string \<Rightarrow> exn + json"
  str_exn :: "exn \<Rightarrow> string"
  open_pdf :: "string \<Rightarrow> exn + nat"
  render_page :: "string \<Rightarrow> nat \<Rightarrow> exn + string"
  extract_metadata :: "string \<Rightarrow> (string \<times> string) list"
  save_outputs :: "string \<Rightarrow> exn + unit"

text \<open>\<open>str(n)\<close> for a natural number.\<close>

function str_nat :: "nat \<Rightarrow> string" where
  "str_nat n = (if n < 10 then [char_of (48 + n)] else str_nat (n div 10) @ [char_of (48 + n mod 10)])"
  by pat_completeness auto
termination
  by (relation "measure id") auto

definition error_page :: "remote \<Rightarrow> nat \<Rightarrow> exn \<Rightarrow> page" where
  "error_page rm page_num e =
     \<lparr>page_number = page_num,
      text_content = ''Error analyzing page '' @ str_nat page_num @ '': '' @ str_exn rm e,
      structured_data = JObj []\<rparr>"

text \<open>\<open>analyze_page_detailed\<close>: the call, \<open>response.content[0].text\<close> and the parse are
  inside one \<open>try\<close>; the inner \<open>try\<close> replaces a failed parse by
  \<open>{"raw_content": content}\<close>.\<close>

definition analyze_page_detailed :: "remote \<Rightarrow> string \<Rightarrow> nat \<Rightarrow> page" where
  "analyze_page_detailed rm img_b64 page_num =
     (case messages_create rm img_b64 page_num of
        Inl e \<Rightarrow> error_page rm page_num e
      | Inr blocks \<Rightarrow>
          (case blocks of
             [] \<Rightarrow> error_page rm page_num IndexError
           | content # others \<Rightarrow>
               \<lparr>page_number = page_num,
                text_content = content,
                structured_data =
                  (case json_loads rm content of
                     Inr j \<Rightarrow> j
                   | Inl e \<Rightarrow> JObj [(''raw_content'', JStr content)])\<rparr>))"

text \<open>The page loop of \<open>extract_pdf_with_vision\<close> over the page indices still to do;
  the state is \<open>results["pages"]\<close> and \<open>results["full_content"]\<close>. The rendering is outside
  the \<open>try\<close> of \<open>analyze_page_detailed\<close>, so its exception leaves the loop.\<close>

fun page_loop :: "remote \<Rightarrow> string \<Rightarrow> nat list \<Rightarrow> page list \<times> string \<Rightarrow> exn + page list \<times> string" where
  "page_loop rm pdf [] st = Inr st"
| "page_loop rm pdf (page_num # rest) (pgs, full_content) =
     (case render_page rm pdf page_num of
        Inl e \<Rightarrow> Inl e
      | Inr img_b64 \<Rightarrow>
          (let page_analysis = analyze_page_detailed rm img_b64 (page_num + 1)
           in page_loop rm pdf rest
                (pgs @ [page_analysis],
                 full_content @ [NL, NL] @ ''=== PAGE '' @ str_nat (page_num + 1) @ '' ==='' @ [NL]
                   @ text_content page_analysis)))"

text \<open>\<open>generate_summary\<close>.\<close>

definition generate_summary :: "remote \<Rightarrow> string \<Rightarrow> string" where
  "generate_summary rm content =
     (if content = [] \<or> length (strip content) < 50
      then ''No substantial content found for summary.''
      else (case summary_create rm (take 3000 content) of
              Inl e \<Rightarrow> ''Summary generation failed: '' @ str_exn rm e
            | Inr blocks \<Rightarrow>
                (case blocks of
                   [] \<Rightarrow> ''Summary generation failed: '' @ str_exn rm IndexError
                 | t # others \<Rightarrow> t)))"

record results =
  pdf_path :: string
  metadata :: "(string \<times> string) list"
  pages :: "page list"
  well_plate_data :: "json list"
  standards_table :: "json list"
  settings :: pydict
  samples_data :: "json list"
  full_content :: string
  summary :: string

text \<open>\<open>extract_pdf_with_vision\<close>: \<open>None\<close> is the result of the outer \<open>except\<close>, which
  catches whatever the steps inside the \<open>try\<close> raise. Creating the output directory, before
  the \<open>try\<close>, is taken to succeed.\<close>

definition extract_pdf_with_vision :: "remote \<Rightarrow> string \<Rightarrow> results option" where
  "extract_pdf_with_vision rm pdf =
     (case open_pdf rm pdf of
        Inl e \<Rightarrow> None
      | Inr n \<Rightarrow>
          (case page_loop rm pdf [0 ..< n] ([], []) of
             Inl e \<Rightarrow> None
           | Inr (pgs, content) \<Rightarrow>
               (case extract_well_plate_data pgs of
                  Inl e \<Rightarrow> None
                | Inr wells \<Rightarrow>
                    (case extract_standards_table pgs of
                       Inl e \<Rightarrow> None
                     | Inr standards \<Rightarrow>
                         (case extract_settings [] pgs of
                            Inl e \<Rightarrow> None
                          | Inr sett \<Rightarrow>
                              (case extract_samples_data pgs of
                                 Inl e \<Rightarrow> None
                               | Inr samples \<Rightarrow>
                                   if isl (save_outputs rm pdf) then None
                                   else
                                   Some \<lparr>pdf_path = pdf,
                                         metadata = extract_metadata rm pdf,
                                         pages = pgs,
                                         well_plate_data = wells,
                                         standards_table = standards,
                                         settings = sett,
                                         samples_data = samples,
                                         full_content = content,
                                         summary = generate_summary rm content\<rparr>))))))"

section \<open>Concrete environments for the examples\<close>



definition pandas_raising :: pandas where
  "pandas_raising =
     \<lparr>read_csv_pipe = (\<lambda>s. Inl (LibraryError ''ParserError'')),
      read_csv_plain = (\<lambda>s. Inl (LibraryError ''ParserError'')),
      read_csv_relaxed = (\<lambda>s. Inl (LibraryError ''ParserError''))\<rparr>"



section \<open>Notions used in the statements\<close>

text \<open>The reading of the aggregation in the specification: the value of a page under
  the first probed name when present, else under the second when present.\<close>

definition is_array :: "json \<Rightarrow> bool" where
  "is_array v = (case v of JArr xs \<Rightarrow> True | _ \<Rightarrow> False)"

definition is_object :: "json \<Rightarrow> bool" where
  "is_object v = (case v of JObj kvs \<Rightarrow> True | _ \<Rightarrow> False)"

definition page_value :: "string \<Rightarrow> string \<Rightarrow> page \<Rightarrow> json option" where
  "page_value k1 k2 pg =
     (case structured_data pg of
        JObj kvs \<Rightarrow> (case map_of kvs k1 of Some v \<Rightarrow> Some v | None \<Rightarrow> map_of kvs k2)
      | _ \<Rightarrow> None)"

definition page_list :: "string \<Rightarrow> string \<Rightarrow> page \<Rightarrow> json list" where
  "page_list k1 k2 pg = (case page_value k1 k2 pg of Some (JArr xs) \<Rightarrow> xs | _ \<Rightarrow> [])"

text \<open>The elements that a value of any shape contributes when it is iterated, for the
  pages on which the aggregation does not raise.\<close>

definition value_items :: "json \<Rightarrow> json list" where
  "value_items v =
     (case v of
        JArr xs \<Rightarrow> xs
      | JStr s \<Rightarrow> map (\<lambda>c. JStr [c]) s
      | JObj kvs \<Rightarrow> map (\<lambda>kv. JStr (fst kv)) kvs
      | _ \<Rightarrow> [])"

definition page_items :: "string \<Rightarrow> string \<Rightarrow> page \<Rightarrow> json list" where
  "page_items k1 k2 pg = (case page_value k1 k2 pg of Some v \<Rightarrow> value_items v | None \<Rightarrow> [])"

text \<open>A page as the prompt asks for it: the structured data is an object, and the value
  read under the probed names, if any, is a list.\<close>

definition list_valued :: "string \<Rightarrow> string \<Rightarrow> page \<Rightarrow> bool" where
  "list_valued k1 k2 pg =
     (is_object (structured_data pg) \<and>
      (case page_value k1 k2 pg of Some v \<Rightarrow> is_array v | None \<Rightarrow> True))"

definition page_settings :: "page \<Rightarrow> (string \<times> json) list" where
  "page_settings pg =
     (case page_value ''settings'' ''instrument_settings'' pg of
        Some (JObj kvs) \<Rightarrow> kvs
      | _ \<Rightarrow> [])"

text \<open>Likewise for the settings: the value read, if any, is an object.\<close>

definition dict_valued :: "page \<Rightarrow> bool" where
  "dict_valued pg =
     (is_object (structured_data pg) \<and>
      (case page_value ''settings'' ''instrument_settings'' pg of
         Some v \<Rightarrow> is_object v
       | None \<Rightarrow> True))"

text \<open>The last value stored under a key in a list of items.\<close>

definition last_value :: "(string \<times> json) list \<Rightarrow> string \<Rightarrow> json option" where
  "last_value kvs k = map_of (rev kvs) k"

definition example_pages :: "page list" where
  "example_pages =
     [\<lparr>page_number = 1, text_content = [],
       structured_data = JObj [(''wells'', JArr [JStr ''A1'']),
                               (''well_plate_data'', JArr [JStr ''A2'', JStr ''A1''])]\<rparr>,
      \<lparr>page_number = 2, text_content = [], structured_data = JObj [(''raw_content'', JStr ''x'')]\<rparr>,
      \<lparr>page_number = 3, text_content = [],
       structured_data = JObj [(''wells'', JArr [JStr ''A1'']), (''standards'', JArr [JNum 5])]\<rparr>]"

definition settings_pages :: "page list" where
  "settings_pages =
     [\<lparr>page_number = 1, text_content = [],
       structured_data = JObj [(''instrument_settings'', JObj [(''pmt'', JStr ''low'')]),
                               (''settings'', JObj [(''ex'', JNum 485), (''em'', JNum 520)])]\<rparr>,
      \<lparr>page_number = 2, text_content = [], structured_data = JObj []\<rparr>,
      \<lparr>page_number = 3, text_content = [],
       structured_data = JObj [(''instrument_settings'', JObj [(''ex'', JNum 490)])]\<rparr>]"


declare str_nat.simps [simp del]

text \<open>A comma-delimited run of two or more lines: two adjacent lines with a comma each.\<close>

definition comma_line :: "string \<Rightarrow> bool" where
  "comma_line l = (CHR '','' \<in> set l)"

fun comma_run :: "string list \<Rightarrow> bool" where
  "comma_run (a # b # rest) = ((comma_line a \<and> comma_line b) \<or> comma_run (b # rest))"
| "comma_run _ = False"

text \<open>A stand-in for a pandas that accepts every text: one cell holding the text read.\<close>

definition pandas_accepting :: pandas where
  "pandas_accepting =
     \<lparr>read_csv_pipe = (\<lambda>s. Inr \<lparr>columns = [''text''], rows = [[Some s]]\<rparr>),
      read_csv_plain = (\<lambda>s. Inr \<lparr>columns = [''text''], rows = [[Some s]]\<rparr>),
      read_csv_relaxed = (\<lambda>s. Inr \<lparr>columns = [''text''], rows = [[Some s]]\<rparr>)\<rparr>"

text \<open>A pipe table whose data row has one cell more than the header.\<close>

definition ragged_table :: "string list" where
  "ragged_table = [''| a | b |'', ''|---|---|'', ''| 1 | 2 | 3 |'']"

text \<open>The trimming at the end of \<open>extract_section\<close>: leading and trailing blank lines removed.\<close>

definition trim_blank_lines :: "string list \<Rightarrow> string list" where
  "trim_blank_lines ls = rev (dropWhile blank_line (rev (dropWhile blank_line ls)))"

text \<open>A small text export with an exact header and a \<open>METADATA\<close> header after it.\<close>

definition export_text :: string where
  "export_text = ''intro'' @ [NL] @ ''Full Content'' @ [NL] @ [NL] @ ''abc'' @ [NL] @ '' '' @ [NL]
     @ ''METADATA'' @ [NL] @ ''rest''"





definition drop_optional :: "char \<Rightarrow> string \<Rightarrow> string" where
  "drop_optional c l = (case l of [] \<Rightarrow> l | x # r \<Rightarrow> if x = c then r else l)"

definition sep_prefix :: "string \<Rightarrow> string" where
  "sep_prefix l =
     drop_optional (CHR '':'') (dropWhile isspace (drop_optional (CHR ''|'') (dropWhile isspace l)))"

definition sep_tail_ok :: "string \<Rightarrow> bool" where
  "sep_tail_ok f =
     (case f of
        [] \<Rightarrow> True
      | x # u \<Rightarrow> x = CHR ''|'' \<and>
          (let v = (if u \<noteq> [] \<and> last u = NL then butlast u else u)
           in v \<noteq> [] \<and> NL \<notin> set v))"


section \<open>Properties\<close>

subsection \<open>Exit codes and the fallback output of \<open>main\<close>\<close>







subsection \<open>The per-page records and the aggregates of the extractor\<close>





lemma map_of_mem: "(k \<in> fst ` set kvs) = (map_of kvs k \<noteq> None)"
  by (simp add: map_of_eq_None_iff)

lemma probe_object:
  "structured_data pg = JObj kvs \<Longrightarrow> probe k1 k2 pg = Inr (page_value k1 k2 pg)"
  by (cases "map_of kvs k1"; cases "map_of kvs k2")
     (simp_all add: probe_def page_value_def py_contains_def py_getitem_def map_of_mem)

lemma extend_pages_concat:
  "\<forall>pg \<in> set pgs. list_valued k1 k2 pg \<Longrightarrow>
   extend_pages k1 k2 pgs acc = Inr (acc @ concat (map (page_list k1 k2) pgs))"
proof (induction pgs arbitrary: acc)
  case Nil
  then show ?case by simp
next
  case (Cons pg pgs)
  from Cons.prems obtain kvs where sd: "structured_data pg = JObj kvs"
    by (auto simp: list_valued_def is_object_def split: json.splits)
  show ?case
  proof (cases "page_value k1 k2 pg")
    case None
    with Cons sd show ?thesis by (simp add: probe_object page_list_def)
  next
    case (Some v)
    with Cons.prems obtain xs where "v = JArr xs"
      by (auto simp: list_valued_def is_array_def split: json.splits)
    with Some Cons sd show ?thesis by (simp add: probe_object page_list_def py_iter_def)
  qed
qed

lemma probe_returns:
  "probe k1 k2 pg = Inr r \<Longrightarrow> r = page_value k1 k2 pg"
proof (cases "structured_data pg")
  case (JObj kvs)
  assume "probe k1 k2 pg = Inr r"
  with probe_object [OF JObj, of k1 k2] show ?thesis by simp
qed (auto simp: probe_def page_value_def py_contains_def py_getitem_def
    split: if_splits bool.splits sum.splits)

lemma py_iter_returns: "py_iter v = Inr xs \<Longrightarrow> xs = value_items v"
  by (cases v) (auto simp: py_iter_def value_items_def)

lemma extend_pages_returns:
  "extend_pages k1 k2 pgs acc = Inr xs \<Longrightarrow> xs = acc @ concat (map (page_items k1 k2) pgs)"
proof (induction pgs arbitrary: acc)
  case Nil
  then show ?case by simp
next
  case (Cons pg pgs)
  from Cons.prems obtain r where r: "probe k1 k2 pg = Inr r"
    by (cases "probe k1 k2 pg") auto
  from probe_returns [OF r] have pv: "r = page_value k1 k2 pg" .
  show ?case
  proof (cases r)
    case None
    with Cons r pv show ?thesis by (simp add: page_items_def)
  next
    case (Some v)
    with Cons.prems r obtain ys where ys: "py_iter v = Inr ys"
      by (cases "py_iter v") auto
    from py_iter_returns [OF ys] have "ys = value_items v" .
    with Cons.prems r Some ys Cons.IH [of "acc @ ys"] pv show ?thesis
      by (simp add: page_items_def)
  qed
qed

lemma page_items_list: "list_valued k1 k2 pg \<Longrightarrow> page_items k1 k2 pg = page_list k1 k2 pg"
  by (auto simp: list_valued_def page_items_def page_list_def value_items_def is_array_def
      split: option.splits json.splits)

text \<open>
  Claim C8. For pages whose structured data is an object with lists under the probed
  names, the aggregated well-plate list is the concatenation, in page order, of each
  page's list under \<open>well_plate_data\<close> when that name is present, else under \<open>wells\<close>
  when present, else nothing; likewise the standards list with \<open>standards_table\<close> and
  \<open>standards\<close>. Nothing is reordered or removed. For pages of any shape, whenever the
  aggregation returns a list, it is that concatenation of what the values contribute.
\<close>

theorem aggregate_lists_concat:
  "((\<forall>pg \<in> set pgs. list_valued ''well_plate_data'' ''wells'' pg) \<longrightarrow>
      extract_well_plate_data pgs =
        Inr (concat (map (page_list ''well_plate_data'' ''wells'') pgs))) \<and>
   ((\<forall>pg \<in> set pgs. list_valued ''standards_table'' ''standards'' pg) \<longrightarrow>
      extract_standards_table pgs =
        Inr (concat (map (page_list ''standards_table'' ''standards'') pgs))) \<and>
   (extract_well_plate_data pgs = Inr ws \<longrightarrow>
      ws = concat (map (page_items ''well_plate_data'' ''wells'') pgs)) \<and>
   (extract_standards_table pgs = Inr st \<longrightarrow>
      st = concat (map (page_items ''standards_table'' ''standards'') pgs))"
  using extend_pages_returns [of "''well_plate_data''" "''wells''" pgs "[]" ws]
    extend_pages_returns [of "''standards_table''" "''standards''" pgs "[]" st]
  by (simp add: extract_well_plate_data_def extract_standards_table_def extend_pages_concat)

theorem aggregate_lists_concat_witness:
  "extract_well_plate_data example_pages = Inr [JStr ''A2'', JStr ''A1'', JStr ''A1''] \<and>
   extract_standards_table example_pages = Inr [JNum 5]"
  using aggregate_lists_concat [of example_pages]
  by (simp add: example_pages_def list_valued_def page_value_def page_list_def is_array_def is_object_def)

lemma key_eq_JStr [simp]: "key_eq x (JStr a) = (x = JStr a)" "key_eq (JStr a) x = (x = JStr a)"
  by (auto simp: key_eq_def key_number_def split: json.splits option.splits)

lemma dict_get_Nil: "dict_get [] k = None"
  by (simp add: dict_get_def)

lemma dict_get_setitem:
  "dict_get (dict_setitem d (JStr a) v) (JStr b) = (if a = b then Some v else dict_get d (JStr b))"
proof (cases "list_ex (\<lambda>kv. fst kv = JStr a) d")
  case True
  have "find (\<lambda>kv. fst kv = JStr b) (map (\<lambda>kv. if fst kv = JStr a then (fst kv, v) else kv) d)
      = (if a = b then map_option (\<lambda>kv. (fst kv, v)) (find (\<lambda>kv. fst kv = JStr a) d)
         else find (\<lambda>kv. fst kv = JStr b) d)"
    by (induction d) auto
  moreover from True have "find (\<lambda>kv. fst kv = JStr a) d \<noteq> None"
    by (auto simp: find_None_iff list_ex_iff)
  ultimately show ?thesis using True
    by (auto simp: dict_get_def dict_setitem_def)
next
  case False
  then have "find (\<lambda>kv. fst kv = JStr a) d = None"
    by (auto simp: find_None_iff list_ex_iff)
  moreover have "find P (d @ [x]) = (case find P d of Some y \<Rightarrow> Some y | None \<Rightarrow> if P x then Some x else None)"
    for P and x :: "json \<times> json"
    by (induction d) auto
  ultimately show ?thesis using False
    by (auto simp: dict_get_def dict_setitem_def split: option.splits)
qed

lemma dict_get_fold_setitem:
  "dict_get (fold (\<lambda>kv acc. dict_setitem acc (JStr (fst kv)) (snd kv)) kvs d) (JStr k) =
     (case last_value kvs k of Some v \<Rightarrow> Some v | None \<Rightarrow> dict_get d (JStr k))"
proof (induction kvs arbitrary: d)
  case Nil
  then show ?case by (simp add: last_value_def)
next
  case (Cons kv kvs)
  show ?case
    by (cases kv) (auto simp: Cons.IH dict_get_setitem last_value_def map_add_def split: option.splits)
qed

lemma last_value_append:
  "last_value (xs @ ys) k = (case last_value ys k of Some v \<Rightarrow> Some v | None \<Rightarrow> last_value xs k)"
  unfolding last_value_def by (simp add: map_add_def)

text \<open>
  Claim C9. For pages whose structured data is an object with an object under the probed
  names, \<open>extract_settings\<close> returns, and the value of a key in the result is the last
  value that the pages supply for it, in page order (a later page overwrites an earlier
  one); a key that no page supplies keeps its value on entry. Each page supplies the items
  of \<open>settings\<close> when that name is present, and those of \<open>instrument_settings\<close> only
  when \<open>settings\<close> is absent.
\<close>

theorem settings_last_page_wins:
  assumes "\<forall>pg \<in> set pgs. dict_valued pg"
  shows "\<exists>d. extract_settings d0 pgs = Inr d \<and>
           (\<forall>k. dict_get d (JStr k) =
              (case last_value (concat (map page_settings pgs)) k of
                 Some v \<Rightarrow> Some v
               | None \<Rightarrow> dict_get d0 (JStr k)))"
  using assms
proof (induction pgs arbitrary: d0)
  case Nil
  then show ?case by (simp add: last_value_def)
next
  case (Cons pg pgs)
  from Cons.prems obtain kvs where sd: "structured_data pg = JObj kvs"
    by (auto simp: dict_valued_def is_object_def split: json.splits)
  show ?case
  proof (cases "page_value ''settings'' ''instrument_settings'' pg")
    case None
    have "\<forall>pg \<in> set pgs. dict_valued pg" using Cons.prems by simp
    from Cons.IH [OF this, of d0] None sd show ?thesis
      by (simp add: probe_object page_settings_def)
  next
    case (Some v)
    with Cons.prems obtain items where v: "v = JObj items"
      by (auto simp: dict_valued_def is_object_def split: json.splits)
    define d1 where "d1 = fold (\<lambda>kv acc. dict_setitem acc (JStr (fst kv)) (snd kv)) items d0"
    have "\<forall>pg \<in> set pgs. dict_valued pg" using Cons.prems by simp
    from Cons.IH [OF this, of d1] obtain d where
      d: "extract_settings d1 pgs = Inr d"
      "\<And>k. dict_get d (JStr k) =
              (case last_value (concat (map page_settings pgs)) k of
                 Some v \<Rightarrow> Some v | None \<Rightarrow> dict_get d1 (JStr k))"
      by blast
    have ps: "page_settings pg = items" using Some v by (simp add: page_settings_def)
    have "extract_settings d0 (pg # pgs) = Inr d"
      using Some v sd d(1) by (simp add: probe_object dict_update_def d1_def)
    moreover have "dict_get d (JStr k) =
        (case last_value (concat (map page_settings (pg # pgs))) k of
           Some v \<Rightarrow> Some v | None \<Rightarrow> dict_get d0 (JStr k))" for k
      using d(2) [of k] by (simp add: ps last_value_append d1_def dict_get_fold_setitem split: option.splits)
    ultimately show ?thesis by blast
  qed
qed

theorem settings_last_page_wins_witness:
  "\<exists>d. extract_settings [] settings_pages = Inr d \<and>
       dict_get d (JStr ''ex'') = Some (JNum 490) \<and>
       dict_get d (JStr ''em'') = Some (JNum 520) \<and>
       dict_get d (JStr ''pmt'') = None"
proof -
  have dv: "\<forall>pg \<in> set settings_pages. dict_valued pg"
    by (simp add: settings_pages_def dict_valued_def page_value_def is_object_def)
  have ps: "concat (map page_settings settings_pages) =
      [(''ex'', JNum 485), (''em'', JNum 520), (''ex'', JNum 490)]"
    by (simp add: settings_pages_def page_settings_def page_value_def)
  from settings_last_page_wins [OF dv, of "[]"] obtain d where
    d: "extract_settings [] settings_pages = Inr d"
    "\<And>k. dict_get d (JStr k) =
              (case last_value (concat (map page_settings settings_pages)) k of
                 Some v \<Rightarrow> Some v | None \<Rightarrow> dict_get [] (JStr k))"
    by blast
  have "dict_get d (JStr ''ex'') = Some (JNum 490)"
    "dict_get d (JStr ''em'') = Some (JNum 520)"
    "dict_get d (JStr ''pmt'') = None"
    using dict_get_Nil by (simp_all add: d(2) ps last_value_def)
  with d(1) show ?thesis by blast
qed

subsection \<open>Table recovery: the key-value strategy\<close>

lemma count_list_ge1: "(Suc 0 \<le> count_list l c) = (c \<in> set l)"
  by (induction l) auto

lemma csv_like_loop_no_run:
  "\<not> comma_run ls \<Longrightarrow> consec \<le> 1 \<Longrightarrow> (consec = 1 \<longrightarrow> ls = [] \<or> \<not> comma_line (hd ls)) \<Longrightarrow>
   \<exists>block' consec'. csv_like_loop ls (block, consec, blocks) = (block', consec', blocks) \<and> consec' \<le> 1"
proof (induction ls arbitrary: block consec)
  case Nil
  then show ?case by simp
next
  case (Cons l ls)
  show ?case
  proof (cases "comma_line l")
    case True
    with Cons.prems have c0: "consec = 0" by auto
    from True Cons.prems(1) have nr: "\<not> comma_run ls" and nx: "ls = [] \<or> \<not> comma_line (hd ls)"
      by (cases ls; auto)+
    from Cons.IH [OF nr, of 1 "block @ [l]"] nx True c0 show ?thesis
      by (simp add: count_list_ge1 comma_line_def)
  next
    case False
    from Cons.prems(1) have nr: "\<not> comma_run ls" by (cases ls) auto
    from Cons.IH [OF nr, of 0 "[]"] False Cons.prems(2) show ?thesis
      by (simp add: count_list_ge1 comma_line_def)
  qed
qed

lemma extract_csv_like_block_no_run:
  assumes "\<not> comma_run ls"
  shows "extract_csv_like_block ls = None"
proof -
  from csv_like_loop_no_run [OF assms, of 0 "[]" "[]"] obtain block' consec' where
    "csv_like_loop ls ([], 0, []) = (block', consec', [])" "consec' \<le> 1"
    by auto
  then show ?thesis by (simp add: extract_csv_like_block_def)
qed

lemma rstrip_Cons: "\<not> isspace x \<Longrightarrow> rstrip (x # r) = x # rstrip r"
  by (simp add: rstrip_def dropWhile_append)

lemma strip_starts:
  assumes "lstrip l = x # r"
  shows "strip l = x # rstrip r"
proof -
  from assms have "\<not> isspace x"
    unfolding lstrip_def by (metis hd_dropWhile list.sel(1) list.distinct(1))
  then show ?thesis using assms by (simp add: strip_def rstrip_Cons)
qed

lemma isspace_not_key: "isspace c \<Longrightarrow> c \<noteq> CHR '':''" "isspace c \<Longrightarrow> c \<noteq> CHR ''|''"
  by (auto simp: isspace_def)

lemma kv_key_char_not_pipe: "kv_key_char c \<Longrightarrow> c \<noteq> CHR ''|''"
  by (auto simp: kv_key_char_def is_word_def isalpha_def)

lemma split_at_char:
  "c \<in> set l \<Longrightarrow> \<exists>rest. l = takeWhile (\<lambda>x. x \<noteq> c) l @ c # rest"
  by (induction l) auto

lemma kv_line_not_pipe:
  assumes "kv_line l"
  shows "\<not> startswith (strip l) ''|''"
proof -
  define p where "p = takeWhile (\<lambda>x. x \<noteq> CHR '':'') l"
  define q where "q = dropWhile isspace p"
  from assms have "CHR '':'' \<in> set l" by (simp add: kv_line_def)
  from split_at_char [OF this] obtain rest where l: "l = p @ CHR '':'' # rest"
    unfolding p_def by blast
  show ?thesis
  proof (cases "q = []")
    case True
    then have "\<forall>c \<in> set p. isspace c" by (simp add: q_def dropWhile_eq_Nil_conv)
    then have "lstrip l = CHR '':'' # rest"
      by (simp add: l lstrip_def dropWhile_append isspace_def)
    from strip_starts [OF this] show ?thesis by (simp add: startswith_def)
  next
    case False
    then obtain x q' where q: "q = x # q'" by (cases q) auto
    from assms False have "list_all kv_key_char q"
      by (simp add: kv_line_def p_def q_def Let_def)
    with q have x: "x \<noteq> CHR ''|''" by (simp add: kv_key_char_not_pipe)
    from False obtain y where "y \<in> set p" "\<not> isspace y"
      by (auto simp: q_def dropWhile_eq_Nil_conv)
    then have "dropWhile isspace (p @ CHR '':'' # rest) = q @ CHR '':'' # rest"
      unfolding q_def by (rule dropWhile_append1)
    then have "lstrip l = q @ CHR '':'' # rest"
      using l by (simp add: lstrip_def)
    then have "lstrip l = x # (q' @ CHR '':'' # rest)" by (simp add: q)
    from strip_starts [OF this] x show ?thesis by (simp add: startswith_def)
  qed
qed

lemma no_header_no_table:
  "\<forall>l \<in> set ls. \<not> md_header_line l \<Longrightarrow> extract_markdown_pipe_table ls = None"
  by (induction ls rule: extract_markdown_pipe_table.induct) auto

lemma fold_max_const:
  "\<forall>x \<in> set xs. x = n \<Longrightarrow> fold max xs a = (if xs = [] then a else max n a)"
  by (induction xs arbitrary: a) (auto simp: max_def)

lemma DataFrame_rows_uniform:
  assumes "data \<noteq> []" and "\<forall>r \<in> set data. length r = length cols"
  shows "DataFrame_rows data cols = Inr \<lparr>columns = cols, rows = map (map Some) data\<rparr>"
proof -
  from assms(2) have "\<forall>x \<in> set (map length data). x = length cols" by simp
  from fold_max_const [OF this, of 0] assms(1)
  have w: "fold max (map length data) 0 = length cols" by simp
  have "map (\<lambda>r. map Some r @ replicate (length cols - length r) None) data = map (map Some) data"
    using assms(2) by simp
  then show ?thesis using assms(1) by (simp add: DataFrame_rows_def w)
qed

lemma length_kv_row: "length (kv_row l) = 2"
  by (simp add: kv_row_def split_first_def)

text \<open>
  Claim C4. A section of two or more lines, each of the shape \<open>key: value\<close> (the pattern
  of \<open>extract_key_value_block\<close>), without two adjacent lines that contain a comma, is
  parsed with the tag \<open>key_value\<close> into a table with exactly the columns \<open>Field\<close> and
  \<open>Value\<close> and one row per line, in the order of the lines: the stripped text before the
  first colon and the stripped text after it. Such a section never contains a pipe table.
\<close>

theorem key_value_section:
  assumes "2 \<le> length lines" and "\<forall>l \<in> set lines. kv_line l" and "\<not> comma_run lines"
  shows "parse_table_from_section pd lines =
           Inr (Some \<lparr>columns = [''Field'', ''Value''],
                      rows = map (\<lambda>l. [Some (strip (takeWhile (\<lambda>x. x \<noteq> CHR '':'') l)),
                                       Some (strip (drop 1 (dropWhile (\<lambda>x. x \<noteq> CHR '':'') l)))])
                               lines\<rparr>,
                key_value)"
proof -
  from assms(1) have ne: "lines \<noteq> []" by auto
  have md: "strategy_markdown pd lines = Inr None"
    using assms(2) by (simp add: strategy_markdown_def no_header_no_table md_header_line_def kv_line_not_pipe)
  have csv: "strategy_csv pd lines = None"
    using assms(3) by (simp add: strategy_csv_def extract_csv_like_block_no_run)
  have f: "filter kv_line lines = lines" using assms(2) by simp
  have df: "DataFrame_rows (map kv_row lines) [''Field'', ''Value''] =
      Inr \<lparr>columns = [''Field'', ''Value''], rows = map (map Some) (map kv_row lines)\<rparr>"
    using ne by (intro DataFrame_rows_uniform) (simp_all add: length_kv_row)
  have kv: "strategy_key_value lines =
      Inr (Some (\<lparr>columns = [''Field'', ''Value''], rows = map (\<lambda>l. map Some (kv_row l)) lines\<rparr>, key_value))"
    using assms(1) ne
    by (simp add: strategy_key_value_def extract_key_value_block_def f df comp_def)
  show ?thesis
    using ne by (simp add: parse_table_from_section_def md csv kv kv_row_def split_first_def)
qed


theorem key_value_section_witness:
  "parse_table_from_section pandas_raising [''Instrument: SpectraMax'', '' Temp (C) : 25,5 '', ''Operator:''] =
     Inr (Some \<lparr>columns = [''Field'', ''Value''],
                rows = [[Some ''Instrument'', Some ''SpectraMax''], [Some ''Temp (C)'', Some ''25,5''],
                        [Some ''Operator'', Some '''']]\<rparr>,
          key_value)"
  using key_value_section [of "[''Instrument: SpectraMax'', '' Temp (C) : 25,5 '', ''Operator:'']" pandas_raising]
  by (simp add: kv_line_def kv_key_char_def is_word_def isalpha_def isspace_def comma_line_def
      strip_def lstrip_def rstrip_def)

subsection \<open>Table recovery: the pipe-table strategy\<close>

lemma ragged_md: "extract_markdown_pipe_table ragged_table = Some (join [NL] ragged_table)"
  unfolding ragged_table_def by code_simp

lemma ragged_manual: "markdown_manual (join [NL] ragged_table) = Inl ValueError"
  unfolding ragged_table_def by code_simp

text \<open>
  Claim C1 does not hold of the code: an exception can leave \<open>parse_table_from_section\<close>.
  On the pipe table \<open>ragged_table\<close>, whenever \<open>read_csv\<close> rejects the text (pandas
  raises a \<open>ParserError\<close> for a row with more fields than the header), the manual split
  in the \<open>except\<close> branch passes two labels for rows of three cells, and the
  \<open>ValueError\<close> of the \<open>DataFrame\<close> constructor is raised outside every \<open>try\<close>.
\<close>

theorem manual_path_raises:
  assumes "read_csv_pipe pd (join [NL] ragged_table) = Inl e"
  shows "parse_table_from_section pd ragged_table = Inl ValueError"
proof -
  have "join [NL] ragged_table \<noteq> []" by (simp add: ragged_table_def)
  then have "strategy_markdown pd ragged_table = Inl ValueError"
    using assms by (simp add: strategy_markdown_def ragged_md ragged_manual)
  moreover have "ragged_table \<noteq> []" by (simp add: ragged_table_def)
  ultimately show ?thesis by (simp add: parse_table_from_section_def)
qed

theorem manual_path_raises_witness:
  "parse_table_from_section pandas_raising ragged_table = Inl ValueError"
  using manual_path_raises [of pandas_raising "LibraryError ''ParserError''"]
  by (simp add: pandas_raising_def)

lemma splitlines_from_nonempty:
  "cur \<noteq> [] \<or> (\<exists>c \<in> set b. \<not> is_linebreak c) \<Longrightarrow> 1 \<le> length (splitlines_from cur b)"
proof (induction b arbitrary: cur)
  case Nil
  then show ?case by simp
next
  case (Cons c cs)
  show ?case
  proof (cases "is_linebreak c")
    case True
    then show ?thesis by (cases cs) auto
  next
    case False
    then have "c \<noteq> CR" by (auto simp: is_linebreak_def CR_def)
    with False Cons.IH [of "c # cur"] show ?thesis by simp
  qed
qed

lemma splitlines_from_two:
  "\<exists>c \<in> set b. \<not> is_linebreak c \<Longrightarrow> 2 \<le> length (splitlines_from cur (a @ NL # b))"
proof (induction a arbitrary: cur)
  case Nil
  have "NL \<noteq> CR" "is_linebreak NL" by (simp_all add: NL_def CR_def is_linebreak_def)
  with splitlines_from_nonempty [of "[]" b] Nil show ?case by simp
next
  case (Cons c cs)
  have rest: "1 \<le> length (splitlines_from [] (xs @ NL # b))" for xs
    using Cons.prems by (intro splitlines_from_nonempty) auto
  show ?case
  proof (cases "c = CR")
    case True
    show ?thesis
    proof (cases cs)
      case Nil
      have "1 \<le> length (splitlines_from [] b)"
        using Cons.prems by (intro splitlines_from_nonempty) auto
      with True Nil show ?thesis by (simp add: NL_def CR_def)
    next
      case (Cons d ds)
      with True rest [of ds] rest [of "d # ds"] show ?thesis by simp
    qed
  next
    case False
    show ?thesis
    proof (cases "is_linebreak c")
      case True
      with False rest [of cs] show ?thesis by simp
    next
      case nb: False
      with False Cons.IH [OF Cons.prems, of "c # cur"] show ?thesis by simp
    qed
  qed
qed

lemma separator_has_dash:
  assumes "md_separator_line s"
  shows "CHR ''-'' \<in> set s"
proof -
  define a where "a = dropWhile isspace s"
  define b where "b = (case a of [] \<Rightarrow> a | x # r \<Rightarrow> if x = CHR ''|'' then r else a)"
  define c where "c = dropWhile isspace b"
  define d where "d = (case c of [] \<Rightarrow> c | x # r \<Rightarrow> if x = CHR '':'' then r else c)"
  from assms have "2 \<le> length (takeWhile (\<lambda>x. x = CHR ''-'') d)"
    unfolding md_separator_line_def Let_def a_def b_def c_def d_def by blast
  then have "takeWhile (\<lambda>x. x = CHR ''-'') d \<noteq> []" by auto
  then have "CHR ''-'' \<in> set d" by (cases d) (auto split: if_splits)
  moreover have "set d \<subseteq> set c" by (auto simp: d_def split: list.splits if_splits)
  moreover have "set c \<subseteq> set b" unfolding c_def by (auto dest: set_dropWhileD)
  moreover have "set b \<subseteq> set a" by (auto simp: b_def split: list.splits if_splits)
  moreover have "set a \<subseteq> set s" unfolding a_def by (auto dest: set_dropWhileD)
  ultimately show ?thesis by blast
qed

lemma join_two: "join sep (l # s # rest) = l @ sep @ join sep (s # rest)"
  by simp

lemma set_join_hd: "set s \<subseteq> set (join sep (s # rest))"
  by (cases rest) auto

lemma table_found_shape:
  "extract_markdown_pipe_table ls = Some md \<Longrightarrow>
   \<exists>l s rest. md = join [NL] (l # s # rest) \<and> md_header_line l \<and> md_separator_line s"
  by (induction ls rule: extract_markdown_pipe_table.induct) (auto split: if_splits)

lemma table_found:
  "md_header_line h \<Longrightarrow> md_separator_line s \<Longrightarrow>
   extract_markdown_pipe_table (pre @ h # s # post) \<noteq> None"
proof (induction pre)
  case Nil
  then show ?case by simp
next
  case (Cons x pre)
  then show ?case by (cases pre) auto
qed

lemma manual_not_skipped:
  assumes "md_separator_line s"
  shows "markdown_manual (join [NL] (l # s # rest)) \<noteq> Inr None"
proof -
  have "CHR ''-'' \<in> set (join [NL] (s # rest))"
    using separator_has_dash [OF assms] set_join_hd by blast
  moreover have "\<not> is_linebreak CHR ''-''" by (simp add: is_linebreak_def)
  ultimately have "\<exists>c \<in> set (join [NL] (s # rest)). \<not> is_linebreak c" by blast
  from splitlines_from_two [OF this, of "[]" l]
  have "2 \<le> length (splitlines (join [NL] (l # s # rest)))"
    by (simp add: splitlines_def)
  then show ?thesis
    by (auto simp: markdown_manual_def Let_def split: sum.splits)
qed

text \<open>
  Claim C2, amended. When a section has a line that, stripped, starts with a pipe and
  contains a second pipe, directly followed by a line that matches the separator pattern,
  \<open>extract_markdown_pipe_table\<close> finds a table, and none of the strategies 2 to 5 is tried,
  whatever else the section contains: if pandas reads the table, the result is its cleaned
  frame with the tag \<open>markdown_pipe\<close>; if that read raises, any result returned is the
  frame of the manual split with the tag \<open>markdown_pipe_manual\<close>.
\<close>

theorem pipe_table_first:
  assumes "md_header_line h" and "md_separator_line s"
  shows "\<exists>md. extract_markdown_pipe_table (pre @ h # s # post) = Some md \<and>
           (\<forall>df. read_csv_pipe pd md = Inr df \<longrightarrow>
              parse_table_from_section pd (pre @ h # s # post) =
                Inr (Some (clean_pipe_frame df), markdown_pipe)) \<and>
           (\<forall>e r. read_csv_pipe pd md = Inl e \<and>
                  parse_table_from_section pd (pre @ h # s # post) = Inr r \<longrightarrow>
              (\<exists>df. markdown_manual md = Inr (Some (df, markdown_pipe_manual)) \<and>
                    r = (Some df, markdown_pipe_manual)))"
proof -
  from table_found [OF assms] obtain md where
    md: "extract_markdown_pipe_table (pre @ h # s # post) = Some md" by blast
  from table_found_shape [OF md] obtain l' s' rest' where
    shape: "md = join [NL] (l' # s' # rest')" "md_separator_line s'" by blast
  have ne: "md \<noteq> []" using shape(1) by simp
  have manual: "markdown_manual md \<noteq> Inr None"
    using manual_not_skipped [OF shape(2)] shape(1) by simp
  have tag: "markdown_manual md = Inr (Some (df, m)) \<Longrightarrow> m = markdown_pipe_manual" for df m
    by (auto simp: markdown_manual_def Let_def split: if_splits sum.splits)
  have "parse_table_from_section pd (pre @ h # s # post) =
          Inr (Some (clean_pipe_frame df), markdown_pipe)"
    if "read_csv_pipe pd md = Inr df" for df
    using that md ne by (simp add: parse_table_from_section_def strategy_markdown_def)
  moreover have "\<exists>df. markdown_manual md = Inr (Some (df, markdown_pipe_manual)) \<and>
                    r = (Some df, markdown_pipe_manual)"
    if "read_csv_pipe pd md = Inl e" "parse_table_from_section pd (pre @ h # s # post) = Inr r" for e r
  proof (cases "markdown_manual md")
    case (Inl e')
    with that md ne show ?thesis
      by (simp add: parse_table_from_section_def strategy_markdown_def)
  next
    case (Inr x)
    with manual obtain df m where x: "x = Some (df, m)" by (cases x) auto
    with Inr tag have "m = markdown_pipe_manual" by blast
    with that md ne Inr x show ?thesis
      by (simp add: parse_table_from_section_def strategy_markdown_def)
  qed
  ultimately show ?thesis using md by blast
qed


text \<open>
  Claim C2, as stated, fails: a line that starts with a pipe and is followed by a dashed
  separator line is not yet a table for \<open>extract_markdown_pipe_table\<close>, which also wants a
  second pipe in the header line. Here strategy 1 finds nothing, and the section goes to
  the comma block (or, when pandas rejects that, to the raw fallback).
\<close>

theorem pipe_table_first_counterexample:
  "startswith (strip ''| a'') ''|'' \<and> md_separator_line ''|--'' \<and>
   parse_table_from_section pandas_accepting [''| a'', ''|--'', ''x,y'', ''z,w''] =
     Inr (Some \<lparr>columns = [''text''], rows = [[Some (''x,y'' @ [NL] @ ''z,w'')]]\<rparr>, csv_block) \<and>
   parse_table_from_section pandas_raising [''| a'', ''|--'', ''x,y'', ''z,w''] =
     Inr (Some \<lparr>columns = [''FullContent''],
                rows = [[Some (''| a'' @ [NL] @ ''|--'' @ [NL] @ ''x,y'' @ [NL] @ ''z,w'')]]\<rparr>,
          raw_single)"
  unfolding pandas_accepting_def pandas_raising_def by code_simp

lemma mixed_section_table:
  "extract_markdown_pipe_table [''x,y'', ''z,w'', ''| a | b |'', ''|---|---|'', ''| 1 | 2 |''] =
     Some (''| a | b |'' @ [NL] @ ''|---|---|'' @ [NL] @ ''| 1 | 2 |'')"
  by code_simp

lemma mixed_section_lines:
  "md_header_line ''| a | b |''" "md_separator_line ''|---|---|''"
  by code_simp+

theorem pipe_table_first_witness:
  "parse_table_from_section pandas_accepting
     [''x,y'', ''z,w'', ''| a | b |'', ''|---|---|'', ''| 1 | 2 |''] =
     Inr (Some \<lparr>columns = [''text''],
                rows = [[Some (''| a | b |'' @ [NL] @ ''|---|---|'' @ [NL] @ ''| 1 | 2 |'')]]\<rparr>,
          markdown_pipe)"
proof -
  have c: "clean_pipe_frame \<lparr>columns = [''text''], rows = [[Some x]]\<rparr> =
      \<lparr>columns = [''text''], rows = [[Some x]]\<rparr>" for x
    by (simp add: clean_pipe_frame_def keep_column_def startswith_def strip_def lstrip_def
        rstrip_def isspace_def)
  from pipe_table_first [OF mixed_section_lines, of "[''x,y'', ''z,w'']" "[''| 1 | 2 |'']" pandas_accepting]
  obtain md where
    1: "extract_markdown_pipe_table ([''x,y'', ''z,w''] @ ''| a | b |'' # ''|---|---|'' # [''| 1 | 2 |'']) = Some md"
    and 2: "\<And>df. read_csv_pipe pandas_accepting md = Inr df \<Longrightarrow>
              parse_table_from_section pandas_accepting
                ([''x,y'', ''z,w''] @ ''| a | b |'' # ''|---|---|'' # [''| 1 | 2 |'']) =
                Inr (Some (clean_pipe_frame df), markdown_pipe)"
    by blast
  from 1 have md: "md = ''| a | b |'' @ [NL] @ ''|---|---|'' @ [NL] @ ''| 1 | 2 |''"
    by (simp only: append.simps mixed_section_table option.inject)
  have "read_csv_pipe pandas_accepting md = Inr \<lparr>columns = [''text''], rows = [[Some md]]\<rparr>"
    by (simp add: pandas_accepting_def)
  from 2 [OF this] show ?thesis
    by (simp only: append.simps c md)
qed

subsection \<open>The section locator\<close>

lemma find_enumerate_none:
  "\<forall>l \<in> set ls. \<not> P l \<Longrightarrow> find (\<lambda>(i, l). P l) (enumerate ls) = None"
  by (auto simp: find_None_iff enumerate_def dest: set_zip_rightD)

lemma upt_shift: "[k ..< k + Suc n] = k # [Suc k ..< Suc k + n]"
proof -
  have "k < k + Suc n" by simp
  from upt_conv_Cons [OF this] show ?thesis by simp
qed

lemma find_zip_first:
  "\<forall>l \<in> set pre. \<not> P l \<Longrightarrow> P h \<Longrightarrow>
   find (\<lambda>(i, l). P l) (zip [k ..< k + length (pre @ h # rest)] (pre @ h # rest)) =
     Some (k + length pre, h)"
proof (induction pre arbitrary: k)
  case Nil
  have "length ([] @ h # rest) = Suc (length rest)" by simp
  with Nil show ?case by (simp only: upt_shift) simp
next
  case (Cons x pre)
  from Cons.prems have nx: "\<not> P x" and "\<forall>l \<in> set pre. \<not> P l" by simp_all
  with Cons.IH [of "Suc k"] Cons.prems(2)
  have ih: "find (\<lambda>(i, l). P l) (zip [Suc k ..< Suc k + length (pre @ h # rest)] (pre @ h # rest)) =
      Some (Suc k + length pre, h)" by blast
  have "length ((x # pre) @ h # rest) = Suc (length (pre @ h # rest))" by simp
  then have "zip [k ..< k + length ((x # pre) @ h # rest)] ((x # pre) @ h # rest) =
      (k, x) # zip [Suc k ..< Suc k + length (pre @ h # rest)] (pre @ h # rest)"
    by (simp only: upt_shift) simp
  with ih nx show ?case by simp
qed

lemma find_enumerate_first:
  "\<forall>l \<in> set pre. \<not> P l \<Longrightarrow> P h \<Longrightarrow>
   find (\<lambda>(i, l). P l) (enumerate (pre @ h # rest)) = Some (length pre, h)"
  using find_zip_first [of pre P h 0 rest] by (simp add: enumerate_def)

lemma detect_none:
  assumes "\<forall>l \<in> set ls. \<not> exact_header l \<and> \<not> heuristic_header (strip l)"
  shows "detect_section_headers ls = []"
proof -
  have "filter (\<lambda>key. lower (strip l) = lower key) FULL_CONTENT_KEYS = []" if "l \<in> set ls" for l
  proof -
    from assms that have "lower (strip l) \<notin> set (map lower FULL_CONTENT_KEYS)"
      by (simp add: exact_header_def)
    then show ?thesis by (auto simp: filter_empty_conv)
  qed
  with assms show ?thesis
    by (auto simp: detect_section_headers_def enumerate_def Let_def dest!: set_zip_rightD)
qed

lemma next_section_idx_end:
  "\<forall>l \<in> set body. \<not> section_end_line l \<Longrightarrow> section_end_line m \<Longrightarrow>
   next_section_idx (body @ m # post) j = j + length body"
  by (induction body arbitrary: j) auto

lemma next_section_idx_none:
  "\<forall>l \<in> set body. \<not> section_end_line l \<Longrightarrow> next_section_idx body j = j + length body"
  by (induction body arbitrary: j) auto

lemma extract_section_between:
  assumes "\<forall>l \<in> set body. \<not> section_end_line l" and "section_end_line m"
  shows "extract_section (pre @ h # body @ m # post) (length pre) = trim_blank_lines body"
  using next_section_idx_end [OF assms, of post "Suc (length pre)"]
  by (simp add: extract_section_def slice_def trim_blank_lines_def)

lemma extract_section_to_end:
  assumes "\<forall>l \<in> set body. \<not> section_end_line l"
  shows "extract_section (pre @ h # body) (length pre) = trim_blank_lines body"
  using next_section_idx_none [OF assms, of "Suc (length pre)"]
  by (simp add: extract_section_def slice_def trim_blank_lines_def)

text \<open>
  Claim C3, amended. When no line of the text is an exact header or a heuristic header,
  \<open>find_full_content_section\<close> returns the outcome "not found". When the first line that is
  an exact header is \<open>h\<close>, the returned body consists of the lines after \<open>h\<close> up to, and
  without, the first later line that ends a section (stripped, a line of 2 to 120 characters
  of \<open>[A-Z0-9 \-_/&]\<close> that contains one of the section keywords, \<open>METADATA\<close> among them, as
  a whole word), or up to the end of the text when there is no such line, with leading and
  trailing blank lines removed; the index and the text of \<open>h\<close> come with it.
\<close>

theorem section_locator:
  "((\<forall>l \<in> set (splitlines t). \<not> exact_header l \<and> \<not> heuristic_header (strip l)) \<longrightarrow>
      find_full_content_section t = None) \<and>
   (splitlines t = pre @ h # body @ m # post \<and> (\<forall>l \<in> set pre. \<not> exact_header l) \<and> exact_header h \<and>
    (\<forall>l \<in> set body. \<not> section_end_line l) \<and> section_end_line m \<longrightarrow>
      find_full_content_section t = Some (trim_blank_lines body, length pre, h)) \<and>
   (splitlines t = pre @ h # body \<and> (\<forall>l \<in> set pre. \<not> exact_header l) \<and> exact_header h \<and>
    (\<forall>l \<in> set body. \<not> section_end_line l) \<longrightarrow>
      find_full_content_section t = Some (trim_blank_lines body, length pre, h))"
proof (intro conjI impI)
  assume a: "\<forall>l \<in> set (splitlines t). \<not> exact_header l \<and> \<not> heuristic_header (strip l)"
  then have "find (\<lambda>(i, l). exact_header l) (enumerate (splitlines t)) = None"
    by (intro find_enumerate_none) simp
  with detect_none [OF a] show "find_full_content_section t = None"
    by (simp add: find_full_content_section_def)
next
  assume a: "splitlines t = pre @ h # body @ m # post \<and> (\<forall>l \<in> set pre. \<not> exact_header l) \<and>
    exact_header h \<and> (\<forall>l \<in> set body. \<not> section_end_line l) \<and> section_end_line m"
  then have "find (\<lambda>(i, l). exact_header l) (enumerate (splitlines t)) = Some (length pre, h)"
    by (simp add: find_enumerate_first)
  moreover from a have "extract_section (splitlines t) (length pre) = trim_blank_lines body"
    by (simp add: extract_section_between)
  ultimately show "find_full_content_section t = Some (trim_blank_lines body, length pre, h)"
    by (simp add: find_full_content_section_def)
next
  assume a: "splitlines t = pre @ h # body \<and> (\<forall>l \<in> set pre. \<not> exact_header l) \<and>
    exact_header h \<and> (\<forall>l \<in> set body. \<not> section_end_line l)"
  then have "find (\<lambda>(i, l). exact_header l) (enumerate (splitlines t)) = Some (length pre, h)"
    by (simp add: find_enumerate_first)
  moreover from a have "extract_section (splitlines t) (length pre) = trim_blank_lines body"
    by (simp add: extract_section_to_end)
  ultimately show "find_full_content_section t = Some (trim_blank_lines body, length pre, h)"
    by (simp add: find_full_content_section_def)
qed

text \<open>
  Claim C3, as stated, fails in its second part: the body ends at the first later section
  header of any kind, not at the \<open>METADATA\<close> line. Here the exact header \<open>FULL CONTENT\<close> is
  followed by a later \<open>METADATA\<close> header, the lines strictly between the two are
  \<open>SUMMARY\<close> and \<open>x\<close>, and the returned body is empty.
\<close>

theorem section_locator_counterexample:
  "find_full_content_section (''FULL CONTENT'' @ [NL] @ ''SUMMARY'' @ [NL] @ ''x'' @ [NL] @ ''METADATA'') =
     Some ([], 0, ''FULL CONTENT'') \<and>
   section_end_line ''METADATA''"
  by code_simp

lemma export_lines:
  "splitlines export_text = [''intro''] @ ''Full Content'' # ['''', ''abc'', '' ''] @ ''METADATA'' # [''rest'']"
  unfolding export_text_def by code_simp

lemma export_facts:
  "\<forall>l \<in> set [''intro'']. \<not> exact_header l" "exact_header ''Full Content''"
  "\<forall>l \<in> set ['''', ''abc'', '' '']. \<not> section_end_line l" "section_end_line ''METADATA''"
  "trim_blank_lines ['''', ''abc'', '' ''] = [''abc'']"
  by code_simp+

theorem section_locator_witness:
  "find_full_content_section export_text = Some ([''abc''], 1, ''Full Content'')"
  using section_locator [of export_text "[''intro'']" "''Full Content''" "['''', ''abc'', '' '']"
      "''METADATA''" "[''rest'']"] export_lines export_facts
  by simp

subsection \<open>Table recovery: the raw fallback fed back\<close>

























lemma md_separator_line_alt:
  "md_separator_line l =
     (2 \<le> length (takeWhile (\<lambda>x. x = CHR ''-'') (sep_prefix l)) \<and>
      sep_tail_ok (dropWhile isspace (dropWhile (\<lambda>x. x = CHR ''-'') (sep_prefix l))))"
  unfolding md_separator_line_def sep_prefix_def sep_tail_ok_def drop_optional_def Let_def
  by (rule refl)






































subsection \<open>The recognisers against their patterns\<close>

text \<open>
  The recogniser \<open>kv_line\<close> accepts exactly the lines that the pattern
  \<open>^\s*[\w \-()\/]+:\<close> matches: blanks, then one or more key characters, then a colon.
\<close>

lemma kv_key_char_not_colon: "kv_key_char c \<Longrightarrow> c \<noteq> CHR '':''"
  by (auto simp: kv_key_char_def is_word_def isalpha_def)

lemma word_not_space: "is_word c \<Longrightarrow> \<not> isspace c"
proof (cases "c = CHR ''_''")
  case True
  then show ?thesis by (simp add: isspace_def)
next
  case False
  assume "is_word c"
  with False show ?thesis
    by (auto simp: is_word_def isalpha_def isspace_def Let_def)
qed

lemma kv_key_char_space: "kv_key_char c \<Longrightarrow> isspace c \<Longrightarrow> c = CHR '' ''"
  using word_not_space [of c] by (auto simp: kv_key_char_def isspace_def)

lemma kv_line_pattern:
  "kv_line l =
     (\<exists>ws key rest. l = ws @ key @ CHR '':'' # rest \<and> list_all isspace ws \<and>
        key \<noteq> [] \<and> list_all kv_key_char key)"
proof
  assume kv: "kv_line l"
  define p where "p = takeWhile (\<lambda>x. x \<noteq> CHR '':'') l"
  define q where "q = dropWhile isspace p"
  from kv have "CHR '':'' \<in> set l" by (simp add: kv_line_def)
  from split_at_char [OF this] obtain rest where l: "l = p @ CHR '':'' # rest"
    unfolding p_def by blast
  show "\<exists>ws key rest. l = ws @ key @ CHR '':'' # rest \<and> list_all isspace ws \<and>
        key \<noteq> [] \<and> list_all kv_key_char key"
  proof (cases "q = []")
    case True
    with kv have pne: "p \<noteq> []" and lp: "last p = CHR '' ''"
      by (simp_all add: kv_line_def Let_def p_def q_def)
    from True have sp: "\<forall>c \<in> set p. isspace c" by (simp add: q_def dropWhile_eq_Nil_conv)
    from pne lp have "p = butlast p @ [CHR '' '']" by (metis append_butlast_last_id)
    with l have "l = butlast p @ [CHR '' ''] @ CHR '':'' # rest" by simp
    moreover have "list_all isspace (butlast p)"
      using sp by (auto simp: list_all_iff dest: in_set_butlastD)
    moreover have "list_all kv_key_char [CHR '' '']" by (simp add: kv_key_char_def)
    ultimately show ?thesis by blast
  next
    case False
    with kv have "list_all kv_key_char q"
      by (simp add: kv_line_def Let_def p_def q_def)
    moreover have "p = takeWhile isspace p @ q" by (simp add: q_def)
    with l have "l = takeWhile isspace p @ q @ CHR '':'' # rest" by (metis append.assoc)
    moreover have "list_all isspace (takeWhile isspace p)"
      by (auto simp: list_all_iff dest: set_takeWhileD)
    ultimately show ?thesis using False by blast
  qed
next
  assume "\<exists>ws key rest. l = ws @ key @ CHR '':'' # rest \<and> list_all isspace ws \<and>
        key \<noteq> [] \<and> list_all kv_key_char key"
  then obtain ws key rest where l: "l = ws @ key @ CHR '':'' # rest"
    and ws: "list_all isspace ws" and kne: "key \<noteq> []" and key: "list_all kv_key_char key"
    by blast
  have nc: "\<And>x. x \<in> set (ws @ key) \<Longrightarrow> x \<noteq> CHR '':''"
    using ws key by (auto simp: list_all_iff isspace_def dest: kv_key_char_not_colon)
  have "takeWhile (\<lambda>x. x \<noteq> CHR '':'') ((ws @ key) @ CHR '':'' # rest) = ws @ key"
    using nc by (simp add: takeWhile_tail)
  with l have p: "takeWhile (\<lambda>x. x \<noteq> CHR '':'') l = ws @ key" by simp
  have q: "dropWhile isspace (ws @ key) = dropWhile isspace key"
    using ws by (intro dropWhile_append2) (simp add: list_all_iff)
  have c: "CHR '':'' \<in> set l" using l by simp
  show "kv_line l"
  proof (cases "dropWhile isspace key = []")
    case True
    then have "isspace (last key)" using kne by (simp add: dropWhile_eq_Nil_conv)
    moreover have "kv_key_char (last key)" using key kne by (simp add: list_all_iff)
    ultimately have "last key = CHR '' ''" by (rule kv_key_char_space [rotated])
    with True kne c show ?thesis unfolding kv_line_def Let_def p q by simp
  next
    case False
    have "set (dropWhile isspace key) \<subseteq> set key" by (auto dest: set_dropWhileD)
    with key have "list_all kv_key_char (dropWhile isspace key)" by (auto simp: list_all_iff)
    with False c show ?thesis unfolding kv_line_def Let_def p q by auto
  qed
qed

text \<open>
  The recogniser \<open>md_separator_line\<close> accepts exactly the lines that the pattern
  \<open>^\s*\|?\s*:?-{2,}\s*(\|.+)?$\<close> matches: blanks, an optional pipe, blanks, an optional
  colon, \<open>n \<ge> 2\<close> dashes, blanks, an optional group of a pipe and one or more characters
  other than a newline, and the end of the line or one final newline.
\<close>

lemma drop_optional_decomp: "\<exists>opt. l = opt @ drop_optional c l \<and> (opt = [] \<or> opt = [c])"
  by (cases l) (auto simp: drop_optional_def)

lemma sep_prefix_decomp:
  "\<exists>ws1 pipe ws2 colon. l = ws1 @ pipe @ ws2 @ colon @ sep_prefix l \<and>
     list_all isspace ws1 \<and> (pipe = [] \<or> pipe = ''|'') \<and>
     list_all isspace ws2 \<and> (colon = [] \<or> colon = '':'')"
proof -
  define a where "a = dropWhile isspace l"
  define b where "b = drop_optional (CHR ''|'') a"
  define c where "c = dropWhile isspace b"
  have 1: "l = takeWhile isspace l @ a" by (simp add: a_def)
  from drop_optional_decomp [of a "CHR ''|''"] obtain pipe where
    2: "a = pipe @ b" "pipe = [] \<or> pipe = ''|''" unfolding b_def by blast
  have 3: "b = takeWhile isspace b @ c" by (simp add: c_def)
  from drop_optional_decomp [of c "CHR '':''"] obtain colon where
    4: "c = colon @ sep_prefix l" "colon = [] \<or> colon = '':''"
    unfolding sep_prefix_def a_def b_def c_def by blast
  have "l = takeWhile isspace l @ pipe @ takeWhile isspace b @ colon @ sep_prefix l"
    using 1 2(1) 3 4(1) by metis
  moreover have "list_all isspace (takeWhile isspace l)" "list_all isspace (takeWhile isspace b)"
    by (auto simp: list_all_iff dest: set_takeWhileD)
  ultimately show ?thesis using 2(2) 4(2) by blast
qed

lemma dropWhile_space_head:
  "list_all isspace ws \<Longrightarrow> \<not> isspace x \<Longrightarrow> dropWhile isspace (ws @ x # r) = x # r"
proof -
  assume ws: "list_all isspace ws" and x: "\<not> isspace x"
  have "dropWhile isspace (ws @ x # r) = dropWhile isspace (x # r)"
    using ws by (intro dropWhile_append2) (simp add: list_all_iff)
  with x show ?thesis by simp
qed

lemma sep_prefix_of_parts:
  assumes ws1: "list_all isspace ws1" and pipe: "pipe = [] \<or> pipe = ''|''"
    and ws2: "list_all isspace ws2" and colon: "colon = [] \<or> colon = '':''"
  shows "sep_prefix (ws1 @ pipe @ ws2 @ colon @ CHR ''-'' # r) = CHR ''-'' # r"
proof -
  have sp: "\<not> isspace CHR ''-''" "\<not> isspace CHR '':''" "\<not> isspace CHR ''|''"
    by (simp_all add: isspace_def)
  define body where "body = colon @ CHR ''-'' # r"
  from colon obtain h t where body: "body = h # t" "\<not> isspace h" "h \<noteq> CHR ''|''"
    using sp by (auto simp: body_def)
  have d: "drop_optional (CHR '':'') body = CHR ''-'' # r"
    using colon by (auto simp: body_def drop_optional_def)
  have c: "dropWhile isspace (drop_optional (CHR ''|'') (dropWhile isspace (ws1 @ pipe @ ws2 @ body))) = body"
  proof (cases "pipe = []")
    case True
    have "list_all isspace (ws1 @ ws2)" using ws1 ws2 by simp
    from dropWhile_space_head [OF this body(2), of t]
    have "dropWhile isspace (ws1 @ pipe @ ws2 @ body) = body" using True body(1) by simp
    then show ?thesis using body by (simp add: drop_optional_def)
  next
    case False
    with pipe have p: "pipe = ''|''" by simp
    from dropWhile_space_head [OF ws1 sp(3), of "ws2 @ body"]
    have "dropWhile isspace (ws1 @ pipe @ ws2 @ body) = CHR ''|'' # ws2 @ body" by (simp add: p)
    then have "drop_optional (CHR ''|'') (dropWhile isspace (ws1 @ pipe @ ws2 @ body)) = ws2 @ body"
      by (simp add: drop_optional_def)
    moreover from dropWhile_space_head [OF ws2 body(2), of t]
    have "dropWhile isspace (ws2 @ body) = body" by (simp add: body(1))
    ultimately show ?thesis by simp
  qed
  show ?thesis
    unfolding sep_prefix_def using c d by (simp add: body_def)
qed


lemma takeWhile_run:
  assumes "\<forall>x \<in> set xs. P x" and "ys = [] \<or> \<not> P (hd ys)"
  shows "takeWhile P (xs @ ys) = xs" and "dropWhile P (xs @ ys) = ys"
proof -
  from assms(2) have t: "takeWhile P ys = []" and d: "dropWhile P ys = ys"
    by (cases ys; auto)+
  from assms(1) have "takeWhile P (xs @ ys) = xs @ takeWhile P ys"
    by (intro takeWhile_append2) simp
  with t show "takeWhile P (xs @ ys) = xs" by simp
  from assms(1) have "dropWhile P (xs @ ys) = dropWhile P ys"
    by (intro dropWhile_append2) simp
  with d show "dropWhile P (xs @ ys) = ys" by simp
qed

lemma md_separator_line_pattern:
  "md_separator_line l =
     (\<exists>ws1 pipe ws2 colon n ws3 grp fin.
        l = ws1 @ pipe @ ws2 @ colon @ replicate n (CHR ''-'') @ ws3 @ grp @ fin \<and>
        list_all isspace ws1 \<and> (pipe = [] \<or> pipe = ''|'') \<and>
        list_all isspace ws2 \<and> (colon = [] \<or> colon = '':'') \<and>
        2 \<le> n \<and> list_all isspace ws3 \<and>
        (grp = [] \<or> (\<exists>v. grp = CHR ''|'' # v \<and> v \<noteq> [] \<and> NL \<notin> set v)) \<and>
        (fin = [] \<or> fin = [NL]))"
  (is "_ = ?R")
proof
  assume sep: "md_separator_line l"
  define d where "d = sep_prefix l"
  define e where "e = dropWhile (\<lambda>x. x = CHR ''-'') d"
  define f where "f = dropWhile isspace e"
  define n where "n = length (takeWhile (\<lambda>x. x = CHR ''-'') d)"
  from sep have n2: "2 \<le> n" and tail: "sep_tail_ok f"
    by (simp_all add: md_separator_line_alt d_def e_def f_def n_def)
  from sep_prefix_decomp [of l] obtain ws1 pipe ws2 colon where
    l: "l = ws1 @ pipe @ ws2 @ colon @ d" and
    c1: "list_all isspace ws1" "pipe = [] \<or> pipe = ''|''"
        "list_all isspace ws2" "colon = [] \<or> colon = '':''"
    unfolding d_def by blast
  have "\<forall>y \<in> set (takeWhile (\<lambda>x. x = CHR ''-'') d). y = CHR ''-''"
    by (auto dest: set_takeWhileD)
  from replicate_length_same [OF this] have tw: "takeWhile (\<lambda>x. x = CHR ''-'') d = replicate n (CHR ''-'')"
    by (simp add: n_def)
  have d: "d = replicate n (CHR ''-'') @ e"
    using takeWhile_dropWhile_id [of "\<lambda>x. x = CHR ''-''" d] by (simp add: tw e_def)
  have e: "e = takeWhile isspace e @ f" by (simp add: f_def)
  have ws3: "list_all isspace (takeWhile isspace e)"
    by (auto simp: list_all_iff dest: set_takeWhileD)
  have "\<exists>grp fin. f = grp @ fin \<and>
      (grp = [] \<or> (\<exists>v. grp = CHR ''|'' # v \<and> v \<noteq> [] \<and> NL \<notin> set v)) \<and> (fin = [] \<or> fin = [NL])"
  proof (cases f)
    case Nil
    then show ?thesis by simp
  next
    case (Cons x u)
    show ?thesis
    proof (cases "u \<noteq> [] \<and> last u = NL")
      case True
      with tail Cons have "x = CHR ''|''" "butlast u \<noteq> []" "NL \<notin> set (butlast u)"
        by (simp_all add: sep_tail_ok_def Let_def)
      moreover from True have "u = butlast u @ [NL]" by (metis append_butlast_last_id)
      then have "f = (x # butlast u) @ [NL]" using Cons by simp
      ultimately show ?thesis by blast
    next
      case False
      with tail Cons have "x = CHR ''|''" "u \<noteq> []" "NL \<notin> set u"
        by (auto simp: sep_tail_ok_def Let_def)
      moreover have "f = (x # u) @ []" using Cons by simp
      ultimately show ?thesis by blast
    qed
  qed
  then obtain grp fin where g: "f = grp @ fin"
      "grp = [] \<or> (\<exists>v. grp = CHR ''|'' # v \<and> v \<noteq> [] \<and> NL \<notin> set v)" "fin = [] \<or> fin = [NL]"
    by blast
  have "l = ws1 @ pipe @ ws2 @ colon @ replicate n (CHR ''-'') @ takeWhile isspace e @ grp @ fin"
    using l d e g(1) by (metis append.assoc)
  with c1 n2 ws3 g(2,3) show ?R by blast
next
  assume ?R
  then obtain ws1 pipe ws2 colon n ws3 grp fin where
    l: "l = ws1 @ pipe @ ws2 @ colon @ replicate n (CHR ''-'') @ ws3 @ grp @ fin" and
    c1: "list_all isspace ws1" "pipe = [] \<or> pipe = ''|''"
        "list_all isspace ws2" "colon = [] \<or> colon = '':''" and
    n2: "2 \<le> n" and ws3: "list_all isspace ws3" and
    grp: "grp = [] \<or> (\<exists>v. grp = CHR ''|'' # v \<and> v \<noteq> [] \<and> NL \<notin> set v)" and
    fin: "fin = [] \<or> fin = [NL]"
    by blast
  define rest where "rest = ws3 @ grp @ fin"
  from n2 obtain m where n: "n = Suc m" by (cases n) auto
  have l': "l = ws1 @ pipe @ ws2 @ colon @ CHR ''-'' # (replicate m (CHR ''-'') @ rest)"
    by (simp add: l n rest_def)
  have d: "sep_prefix l = replicate n (CHR ''-'') @ rest"
    unfolding l' using sep_prefix_of_parts [OF c1] by (simp add: n)
  have nl: "isspace NL" "NL \<noteq> CHR ''-''" by (simp_all add: isspace_def NL_def)
  have hd: "rest = [] \<or> \<not> (hd rest = CHR ''-'')"
  proof (cases ws3)
    case (Cons c cs)
    with ws3 have "isspace c" by simp
    then have "c \<noteq> CHR ''-''" by (auto simp: isspace_def)
    with Cons show ?thesis by (simp add: rest_def)
  next
    case Nil
    with grp fin nl(2) show ?thesis by (auto simp: rest_def)
  qed
  have all: "\<forall>x \<in> set (replicate n (CHR ''-'')). x = CHR ''-''" by simp
  from takeWhile_run [OF all hd]
  have tw: "takeWhile (\<lambda>x. x = CHR ''-'') (sep_prefix l) = replicate n (CHR ''-'')"
    and dw: "dropWhile (\<lambda>x. x = CHR ''-'') (sep_prefix l) = rest"
    by (simp_all only: d)
  have "sep_tail_ok (dropWhile isspace rest)"
  proof (cases "grp = []")
    case True
    with ws3 fin nl(1) have "\<forall>c \<in> set rest. isspace c"
      by (auto simp: rest_def list_all_iff)
    then have eq: "dropWhile isspace rest = []" by (simp only: dropWhile_eq_Nil_conv)
    show ?thesis unfolding eq sep_tail_ok_def by simp
  next
    case False
    with grp obtain v where v: "grp = CHR ''|'' # v" "v \<noteq> []" "NL \<notin> set v" by blast
    have "\<not> isspace CHR ''|''" by (simp add: isspace_def)
    from dropWhile_space_head [OF ws3 this, of "v @ fin"]
    have dr: "dropWhile isspace rest = CHR ''|'' # (v @ fin)" by (simp add: rest_def v(1))
    from fin show ?thesis
    proof
      assume "fin = []"
      moreover from v(2,3) have "last v \<noteq> NL" by (metis last_in_set)
      ultimately show ?thesis using v by (simp add: dr sep_tail_ok_def Let_def)
    next
      assume "fin = [NL]"
      with v show ?thesis by (simp add: dr sep_tail_ok_def Let_def)
    qed
  qed
  with n2 show "md_separator_line l"
    by (simp add: md_separator_line_alt tw dw)
qed

end
